theory Spec2Isabelle
  imports Main "HOL-Library.Word" "HOL-Library.AList" "HOL-Library.Multiset"
begin

unbundle bit_operations_syntax

section \<open>Values shared by the synchronisation code\<close>

text \<open>
  Go's \<^verbatim>\<open>error\<close> values. \<open>EOF\<close> is the sentinel \<^verbatim>\<open>io.EOF\<close>, which the code
  compares by identity; \<open>NotExist\<close> is an error for which \<^verbatim>\<open>os.IsNotExist\<close> holds;
  every other error is \<open>Err\<close> with the text that \<^verbatim>\<open>err.Error()\<close> returns.
\<close>

datatype error = EOF | NotExist string | Err string

fun Error :: "error \<Rightarrow> string" where
  "Error EOF = ''EOF''"
| "Error (NotExist m) = m"
| "Error (Err m) = m"

fun IsNotExist :: "error option \<Rightarrow> bool" where
  "IsNotExist (Some (NotExist m)) = True"
| "IsNotExist _ = False"

text \<open>\<^verbatim>\<open>errors.WithMessage(err, msg)\<close> of github.com/pkg/errors: the text is
  \<^verbatim>\<open>msg + ": " + err.Error()\<close>.\<close>

definition WithMessage :: "error \<Rightarrow> string \<Rightarrow> error" where
  "WithMessage err m = Err (m @ '': '' @ Error err)"

text \<open>\<^verbatim>\<open>strings.HasPrefix(s, prefix)\<close>.\<close>

definition HasPrefix :: "string \<Rightarrow> string \<Rightarrow> bool" where
  "HasPrefix s p = (take (length p) s = p)"

type_synonym byte = "8 word"

text \<open>The enumeration \<^verbatim>\<open>DiffResult\<close>, in the order of its \<^verbatim>\<open>iota\<close> constants.\<close>

datatype DiffResult =
    DiffResultMatch
  | DiffResultMismatch
  | DiffResultOnlyExistsRemote
  | DiffResultOnlyExistsLocal

section \<open>SHA-256\<close>

text \<open>
  \<^verbatim>\<open>crypto/sha256\<close> of the Go standard library, written out from FIPS 180-4, with the
  round constants and the initial hash value in decimal. A 32-bit
  word is an \<open>int\<close> in \<open>[0, 2^32)\<close>; additions are reduced modulo \<open>2^32\<close>, and a
  rotation to the right by \<open>n\<close> is \<open>rotr32 (2^n) (2^(32-n))\<close>.
\<close>

definition sha256_K :: "int list" where
  "sha256_K = [
    1116352408, 1899447441, 3049323471, 3921009573, 961987163, 1508970993, 2453635748, 2870763221,
    3624381080, 310598401, 607225278, 1426881987, 1925078388, 2162078206, 2614888103, 3248222580,
    3835390401, 4022224774, 264347078, 604807628, 770255983, 1249150122, 1555081692, 1996064986,
    2554220882, 2821834349, 2952996808, 3210313671, 3336571891, 3584528711, 113926993, 338241895,
    666307205, 773529912, 1294757372, 1396182291, 1695183700, 1986661051, 2177026350, 2456956037,
    2730485921, 2820302411, 3259730800, 3345764771, 3516065817, 3600352804, 4094571909, 275423344,
    430227734, 506948616, 659060556, 883997877, 958139571, 1322822218, 1537002063, 1747873779,
    1955562222, 2024104815, 2227730452, 2361852424, 2428436474, 2756734187, 3204031479, 3329325298]"

definition sha256_init :: "int list" where
  "sha256_init = [1779033703, 3144134277, 1013904242, 2773480762,
                  1359893119, 2600822924, 528734635, 1541459225]"

definition add32 :: "int \<Rightarrow> int \<Rightarrow> int" where
  "add32 a b = (a + b) mod 4294967296"

definition rotr32 :: "int \<Rightarrow> int \<Rightarrow> int \<Rightarrow> int" where
  "rotr32 lo hi x = x div lo + (x mod lo) * hi"

definition ssig0 :: "int \<Rightarrow> int" where
  "ssig0 x = rotr32 128 33554432 x XOR rotr32 262144 16384 x XOR (x div 8)"

definition ssig1 :: "int \<Rightarrow> int" where
  "ssig1 x = rotr32 131072 32768 x XOR rotr32 524288 8192 x XOR (x div 1024)"

definition bsig0 :: "int \<Rightarrow> int" where
  "bsig0 x = rotr32 4 1073741824 x XOR rotr32 8192 524288 x XOR rotr32 4194304 1024 x"

definition bsig1 :: "int \<Rightarrow> int" where
  "bsig1 x = rotr32 64 67108864 x XOR rotr32 2048 2097152 x XOR rotr32 33554432 128 x"

fun be32 :: "byte list \<Rightarrow> int" where
  "be32 [] = 0"
| "be32 (b # bs) = uint b * 256 ^ length bs + be32 bs"

fun words32 :: "byte list \<Rightarrow> int list" where
  "words32 (a # b # c # d # r) = be32 [a, b, c, d] # words32 r"
| "words32 _ = []"

definition u32_bytes :: "int \<Rightarrow> byte list" where
  "u32_bytes w =
     [word_of_int (w div 16777216), word_of_int (w div 65536), word_of_int (w div 256), word_of_int w]"

definition u64_bytes :: "int \<Rightarrow> byte list" where
  "u64_bytes n = u32_bytes (n div 4294967296) @ u32_bytes n"

definition sha256_pad :: "byte list \<Rightarrow> byte list" where
  "sha256_pad m =
     m @ [0x80] @ replicate ((119 - length m mod 64) mod 64) 0 @ u64_bytes (8 * int (length m))"

text \<open>The message schedule as a window of sixteen words: its head is \<open>W\<^sub>t\<close>.\<close>

fun next_window :: "int list \<Rightarrow> int list" where
  "next_window (w0 # w1 # r) =
     w1 # r @ [add32 (add32 (add32 (ssig1 (r ! 12)) (r ! 7)) (ssig0 w1)) w0]"
| "next_window w = w"

fun sha256_round :: "int list \<Rightarrow> int \<Rightarrow> int \<Rightarrow> int list" where
  "sha256_round [a, b, c, d, e, f, g, h] k w =
     (let t1 = add32 (add32 (add32 (add32 h (bsig1 e)) ((e AND f) XOR ((4294967295 - e) AND g))) k) w;
          t2 = add32 (bsig0 a) ((a AND b) XOR (a AND c) XOR (b AND c))
      in [add32 t1 t2, a, b, c, add32 d t1, e, f, g])"
| "sha256_round s _ _ = s"

fun sha256_rounds :: "int list \<Rightarrow> int list \<Rightarrow> int list \<Rightarrow> int list" where
  "sha256_rounds s [] win = s"
| "sha256_rounds s (k # ks) win = sha256_rounds (sha256_round s k (hd win)) ks (next_window win)"

definition sha256_block :: "int list \<Rightarrow> byte list \<Rightarrow> int list" where
  "sha256_block h blk = map2 add32 h (sha256_rounds h sha256_K (words32 blk))"

fun sha256_blocks :: "int list \<Rightarrow> byte list \<Rightarrow> int list" where
  "sha256_blocks h [] = h"
| "sha256_blocks h bs = sha256_blocks (sha256_block h (take 64 bs)) (drop 64 bs)"

definition sha256 :: "byte list \<Rightarrow> byte list" where
  "sha256 m = concat (map u32_bytes (sha256_blocks sha256_init (sha256_pad m)))"

text \<open>\<^verbatim>\<open>fmt.Sprintf("%x", b)\<close> on a byte slice: two lower-case hexadecimal digits a byte.\<close>

definition hexdigit :: "nat \<Rightarrow> char" where
  "hexdigit n = ''0123456789abcdef'' ! n"

definition hex :: "byte list \<Rightarrow> string" where
  "hex bs = concat (map (\<lambda>b. [hexdigit (unat b div 16), hexdigit (unat b mod 16)]) bs)"

section \<open>ContentHash\<close>

text \<open>
  An \<^verbatim>\<open>io.Reader\<close> is the list of what its successive \<^verbatim>\<open>Read\<close> calls return: the
  bytes put into the buffer (\<open>n\<close> is their number) and the error. A reader whose list is
  used up returns \<open>(0, io.EOF)\<close>. The buffer of \<open>ContentHash\<close> has \<open>hashBlockSize\<close>
  bytes, so no call returns more than that.
\<close>

type_synonym reader = "(byte list \<times> error option) list"

definition hashBlockSize :: int where
  "hashBlockSize = 4 * 1024 * 1024"

definition Read :: "reader \<Rightarrow> (byte list \<times> error option) \<times> reader" where
  "Read r = (case r of [] \<Rightarrow> (([], Some EOF), []) | x # r' \<Rightarrow> (x, r'))"

text \<open>What the reader delivers in all: the bytes of every call up to the first error.\<close>

fun content :: "reader \<Rightarrow> byte list" where
  "content [] = []"
| "content ((bs, None) # r) = bs @ content r"
| "content ((bs, Some e) # r) = bs"

text \<open>\<open>resultHash.Write(bufHash[:])\<close> when \<open>n > 0\<close>; \<open>acc\<close> is what \<open>resultHash\<close>
  has been given so far.\<close>

definition write_block :: "byte list \<Rightarrow> byte list \<Rightarrow> byte list" where
  "write_block acc bs = (if int (length bs) > 0 then acc @ sha256 bs else acc)"

text \<open>
  The \<^verbatim>\<open>for n == hashBlockSize && err == nil\<close> loop. \<open>n\<close> and \<open>err\<close> are the results
  of the previous \<^verbatim>\<open>Read\<close>. On a reader that is used up the next \<^verbatim>\<open>Read\<close> returns
  \<open>(0, io.EOF)\<close>, nothing is written, and the loop ends.
\<close>

fun ContentHash_loop :: "int \<Rightarrow> error option \<Rightarrow> reader \<Rightarrow> byte list \<Rightarrow> error + string" where
  "ContentHash_loop n err [] acc = Inr (hex (sha256 acc))"
| "ContentHash_loop n err ((bs, err') # r) acc =
     (if n = hashBlockSize \<and> err = None then
        (case err' of
           Some e \<Rightarrow> if e \<noteq> EOF then Inl e
                     else ContentHash_loop (int (length bs)) err' r (write_block acc bs)
         | None \<Rightarrow> ContentHash_loop (int (length bs)) err' r (write_block acc bs))
      else Inr (hex (sha256 acc)))"

definition ContentHash :: "reader \<Rightarrow> error + string" where
  "ContentHash r =
     (case Read r of ((bs, err), r') \<Rightarrow>
        (case err of
           Some e \<Rightarrow> if e \<noteq> EOF then Inl e
                     else ContentHash_loop (int (length bs)) err r' (write_block [] bs)
         | None \<Rightarrow> ContentHash_loop (int (length bs)) err r' (write_block [] bs)))"

section \<open>The Dropbox storage service\<close>

text \<open>\<^verbatim>\<open>os.FileInfo\<close>: what the walk uses of it. \<open>Size\<close> is an \<^verbatim>\<open>int64\<close>.\<close>

record FileInfo =
  fi_IsDir :: bool
  fi_Size :: int

text \<open>\<^verbatim>\<open>files.FileMetadata\<close> of the Dropbox SDK: what the walk uses of it. \<open>Size\<close> is
  a \<^verbatim>\<open>uint64\<close>.\<close>

record FileMetadata =
  md_PathDisplay :: string
  md_Size :: "64 word"
  md_ContentHash :: string

text \<open>\<^verbatim>\<open>files.IsMetadata\<close>: a file, or an entry of another kind (folder, deleted).\<close>

datatype IsMetadata = IsFile FileMetadata | IsFolder string | IsDeleted string

type_synonym 's WalkDiffsCallback = "string \<Rightarrow> DiffResult \<Rightarrow> 's \<Rightarrow> error option \<times> 's"

type_synonym SkipCallback = "string \<Rightarrow> FileInfo \<Rightarrow> bool"

text \<open>
  What one call of \<open>WalkDiffs\<close> reads from outside the repository:
  \<^item> \<open>client_ListFolder\<close>: the answer of the recursive \<^verbatim>\<open>ListFolder\<close> call;
  \<^item> \<open>client_CreateFolderV2\<close>: the error of \<^verbatim>\<open>CreateFolderV2\<close>, if any;
  \<^item> \<open>filepath_Rel\<close>: \<^verbatim>\<open>filepath.Rel\<close>;
  \<^item> \<open>filepath_Walk\<close>: the visits of \<^verbatim>\<open>filepath.Walk\<close> on a root, in its order, each with
    the path, the file information and the error handed to the walk function; the walk
    function below never returns \<^verbatim>\<open>filepath.SkipDir\<close> for a directory, and the errors of
    the model do not include that sentinel;
  \<^item> \<open>os_Open\<close>: \<^verbatim>\<open>os.Open\<close>, giving the reader of the file's bytes;
  \<^item> \<open>range_rank\<close>: the order in which \<^verbatim>\<open>range\<close> visits the keys of the map
    \<open>remoteFiles\<close>, which Go leaves unspecified: every key once, by increasing rank.
\<close>

record env =
  client_ListFolder :: "string \<Rightarrow> error + IsMetadata list"
  client_CreateFolderV2 :: "string \<Rightarrow> error option"
  filepath_Rel :: "string \<Rightarrow> string \<Rightarrow> error + string"
  filepath_Walk :: "string \<Rightarrow> (string \<times> FileInfo \<times> error option) list"
  os_Open :: "string \<Rightarrow> error + reader"
  range_rank :: "string \<Rightarrow> nat"

definition HashLocal :: "env \<Rightarrow> string \<Rightarrow> error + string" where
  "HashLocal env file = (case os_Open env file of Inl err \<Rightarrow> Inl err | Inr f \<Rightarrow> ContentHash f)"

text \<open>
  What a run can be seen to do: \<open>Hashed file\<close> is a call of \<open>HashLocal\<close>,
  \<open>Emitted p d\<close> a call of the callback.
\<close>

datatype event = Hashed string | Emitted string DiffResult

text \<open>The map \<open>remoteFiles\<close> is an association list with distinct keys: \<open>map_of\<close>
  reads it, \<open>AList.update\<close> stores, \<open>AList.delete\<close> deletes.\<close>

type_synonym remote_map = "(string \<times> FileMetadata) list"

text \<open>The loop that fills \<open>remoteFiles\<close> from the listing.\<close>

fun build_remoteFiles :: "env \<Rightarrow> string \<Rightarrow> IsMetadata list \<Rightarrow> remote_map \<Rightarrow> error + remote_map" where
  "build_remoteFiles env remote [] remoteFiles = Inr remoteFiles"
| "build_remoteFiles env remote (IsFile v # entList) remoteFiles =
     (case filepath_Rel env remote (md_PathDisplay v) of
        Inl err \<Rightarrow> Inl (WithMessage err ''failed to make remote filepath relative'')
      | Inr strippedFile \<Rightarrow>
          build_remoteFiles env remote entList (AList.update strippedFile v remoteFiles))"
| "build_remoteFiles env remote (_ # entList) remoteFiles =
     build_remoteFiles env remote entList remoteFiles"

text \<open>The test \<^verbatim>\<open>skip != nil && skip(strippedFile, info)\<close>.\<close>

definition skipped :: "SkipCallback option \<Rightarrow> string \<Rightarrow> FileInfo \<Rightarrow> bool" where
  "skipped skip strippedFile info = (case skip of None \<Rightarrow> False | Some sk \<Rightarrow> sk strippedFile info)"

text \<open>
  The function handed to \<^verbatim>\<open>filepath.Walk\<close>. It returns its error, the map, the events
  of this visit and the callback's state. In the branch that compares the hashes,
  \<^verbatim>\<open>hash, err := db.HashLocal(file)\<close> declares a new \<open>err\<close> for that block; the callback's
  error is assigned to it, and the test \<^verbatim>\<open>if err != nil\<close> after the block reads the
  function's own \<open>err\<close>, which is still \<open>nil\<close>.
\<close>

definition walkFn ::
  "env \<Rightarrow> string \<Rightarrow> SkipCallback option \<Rightarrow> 's WalkDiffsCallback \<Rightarrow>
   string \<times> FileInfo \<times> error option \<Rightarrow> remote_map \<Rightarrow> 's \<Rightarrow>
   error option \<times> remote_map \<times> event list \<times> 's" where
  "walkFn env local skip cb ent remoteFiles s =
     (case ent of (file, info, walkErr) \<Rightarrow>
      (case walkErr of
         Some e \<Rightarrow> (Some e, remoteFiles, [], s)
       | None \<Rightarrow>
          if fi_IsDir info then (None, remoteFiles, [], s)
          else
            (case filepath_Rel env local file of
               Inl e \<Rightarrow>
                 (Some (WithMessage e ''failed to make local filepath relative''), remoteFiles, [], s)
             | Inr strippedFile \<Rightarrow>
                 if skipped skip strippedFile info then (None, remoteFiles, [], s)
                 else
                   (case map_of remoteFiles strippedFile of
                      None \<Rightarrow>
                        (case cb strippedFile DiffResultOnlyExistsLocal s of
                           (err, s') \<Rightarrow>
                             (err, remoteFiles, [Emitted strippedFile DiffResultOnlyExistsLocal], s'))
                    | Some metadata \<Rightarrow>
                        if md_Size metadata \<noteq> word_of_int (fi_Size info) then
                          (case cb strippedFile DiffResultMismatch s of
                             (Some e, s') \<Rightarrow>
                               (Some e, remoteFiles, [Emitted strippedFile DiffResultMismatch], s')
                           | (None, s') \<Rightarrow>
                               (None, AList.delete strippedFile remoteFiles,
                                [Emitted strippedFile DiffResultMismatch], s'))
                        else
                          (case HashLocal env file of
                             Inl e \<Rightarrow> (Some e, remoteFiles, [Hashed file], s)
                           | Inr hash \<Rightarrow>
                               if md_ContentHash metadata \<noteq> hash then
                                 (case cb strippedFile DiffResultMismatch s of
                                    (err, s') \<Rightarrow>
                                      (None, AList.delete strippedFile remoteFiles,
                                       [Hashed file, Emitted strippedFile DiffResultMismatch], s'))
                               else
                                 (None, AList.delete strippedFile remoteFiles, [Hashed file], s))))))"

text \<open>\<^verbatim>\<open>filepath.Walk\<close>: the visits in order, stopping at the first error of the walk
  function, which it returns.\<close>

fun Walk ::
  "(string \<times> FileInfo \<times> error option \<Rightarrow> remote_map \<Rightarrow> 's \<Rightarrow>
      error option \<times> remote_map \<times> event list \<times> 's) \<Rightarrow>
   (string \<times> FileInfo \<times> error option) list \<Rightarrow> remote_map \<Rightarrow> 's \<Rightarrow>
   error option \<times> remote_map \<times> event list \<times> 's" where
  "Walk fn [] remoteFiles s = (None, remoteFiles, [], s)"
| "Walk fn (ent # ents) remoteFiles s =
     (case fn ent remoteFiles s of
        (Some e, remoteFiles', evs, s') \<Rightarrow> (Some e, remoteFiles', evs, s')
      | (None, remoteFiles', evs, s') \<Rightarrow>
          (case Walk fn ents remoteFiles' s' of
             (err, remoteFiles'', evs', s'') \<Rightarrow> (err, remoteFiles'', evs @ evs', s'')))"

text \<open>The final \<^verbatim>\<open>for remotePath := range remoteFiles\<close> loop, over the keys in the order
  of the range.\<close>

fun range_remote :: "'s WalkDiffsCallback \<Rightarrow> string list \<Rightarrow> 's \<Rightarrow> error option \<times> event list \<times> 's" where
  "range_remote cb [] s = (None, [], s)"
| "range_remote cb (remotePath # ps) s =
     (case cb remotePath DiffResultOnlyExistsRemote s of
        (Some e, s') \<Rightarrow> (Some e, [Emitted remotePath DiffResultOnlyExistsRemote], s')
      | (None, s') \<Rightarrow>
          (case range_remote cb ps s' of
             (err, evs, s'') \<Rightarrow> (err, Emitted remotePath DiffResultOnlyExistsRemote # evs, s'')))"

text \<open>The listing at the head of \<open>WalkDiffs\<close>: the entries, or the error returned.\<close>

definition list_remote :: "env \<Rightarrow> string \<Rightarrow> error + IsMetadata list" where
  "list_remote env remote =
     (case client_ListFolder env remote of
        Inl err \<Rightarrow>
          if HasPrefix (Error err) ''path/not_found/'' then
            (case client_CreateFolderV2 env remote of
               Some err' \<Rightarrow> Inl err'
             | None \<Rightarrow> Inr [])
          else Inl err
      | Inr folders \<Rightarrow> Inr folders)"

text \<open>\<open>Dropbox.WalkDiffs\<close>: the error returned, the events of the run and the callback's
  final state.\<close>

definition WalkDiffs ::
  "env \<Rightarrow> string \<Rightarrow> string \<Rightarrow> SkipCallback option \<Rightarrow> 's WalkDiffsCallback \<Rightarrow> 's \<Rightarrow>
   error option \<times> event list \<times> 's" where
  "WalkDiffs env local remote skip cb s =
     (case list_remote env remote of
        Inl err \<Rightarrow> (Some err, [], s)
      | Inr entList \<Rightarrow>
          (case build_remoteFiles env remote entList [] of
             Inl err \<Rightarrow> (Some err, [], s)
           | Inr remoteFiles \<Rightarrow>
               (case Walk (walkFn env local skip cb) (filepath_Walk env local) remoteFiles s of
                  (Some err, remoteFiles', evs, s') \<Rightarrow> (Some err, evs, s')
                | (None, remoteFiles', evs, s') \<Rightarrow>
                    (case range_remote cb (sort_key (range_rank env) (map fst remoteFiles')) s' of
                       (err, evs', s'') \<Rightarrow> (err, evs @ evs', s'')))))"

text \<open>The calls of the callback among the events of a run, in order.\<close>

fun emissions :: "event list \<Rightarrow> (string \<times> DiffResult) list" where
  "emissions [] = []"
| "emissions (Emitted p d # evs) = (p, d) # emissions evs"
| "emissions (Hashed f # evs) = emissions evs"

section \<open>Push and pull\<close>

text \<open>\<^verbatim>\<open>files.CommitInfo\<close>: the path and the tag of the write mode. The time of the
  commit, \<^verbatim>\<open>ClientModified\<close>, is left out.\<close>

record CommitInfo =
  ci_Path :: string
  ci_Mode :: string

text \<open>
  What push and pull call outside the repository, on a state \<open>'s\<close> of the local disk
  and the remote store: the functions of \<^verbatim>\<open>path\<close> and \<^verbatim>\<open>os\<close>, \<^verbatim>\<open>io.Copy\<close> into
  a created file, and the calls of the Dropbox client. \<open>snapshot\<close> is what a walk that
  starts in a state reads of it. A reader handed to the client is given as the bytes it
  delivers.
\<close>

record 's sys =
  snapshot :: "'s \<Rightarrow> env"
  path_Join :: "string \<Rightarrow> string \<Rightarrow> string"
  path_Dir :: "string \<Rightarrow> string"
  os_Stat :: "string \<Rightarrow> 's \<Rightarrow> error + FileInfo"
  os_MkdirAll :: "string \<Rightarrow> nat \<Rightarrow> 's \<Rightarrow> error option \<times> 's"
  os_RemoveAll :: "string \<Rightarrow> 's \<Rightarrow> error option \<times> 's"
  os_Create :: "string \<Rightarrow> 's \<Rightarrow> error option \<times> 's"
  io_Copy :: "string \<Rightarrow> byte list \<Rightarrow> 's \<Rightarrow> error option \<times> 's"
  client_DeleteV2 :: "string \<Rightarrow> 's \<Rightarrow> error option \<times> 's"
  client_Upload :: "CommitInfo \<Rightarrow> byte list \<Rightarrow> 's \<Rightarrow> error option \<times> 's"
  client_UploadSessionStart :: "byte list \<Rightarrow> 's \<Rightarrow> (error + string) \<times> 's"
  client_UploadSessionAppendV2 :: "string \<Rightarrow> int \<Rightarrow> byte list \<Rightarrow> 's \<Rightarrow> error option \<times> 's"
  client_UploadSessionFinish ::
    "string \<Rightarrow> int \<Rightarrow> CommitInfo \<Rightarrow> byte list \<Rightarrow> 's \<Rightarrow> error option \<times> 's"
  client_Download :: "string \<Rightarrow> 's \<Rightarrow> (error + byte list) \<times> 's"

text \<open>The interface \<^verbatim>\<open>StorageService\<close> as \<^verbatim>\<open>repo.go\<close> calls it: \<^verbatim>\<open>WalkDiffs\<close> with
  the two folders and the callback, \<^verbatim>\<open>Upload\<close> and \<^verbatim>\<open>Download\<close> with the local and the
  remote file, \<^verbatim>\<open>Delete\<close> with the remote file.\<close>

record 's StorageService =
  svc_WalkDiffs :: "string \<Rightarrow> string \<Rightarrow> 's WalkDiffsCallback \<Rightarrow> 's \<Rightarrow> error option \<times> 's"
  svc_Upload :: "string \<Rightarrow> string \<Rightarrow> 's \<Rightarrow> error option \<times> 's"
  svc_Download :: "string \<Rightarrow> string \<Rightarrow> 's \<Rightarrow> error option \<times> 's"
  svc_Delete :: "string \<Rightarrow> 's \<Rightarrow> error option \<times> 's"

definition Dropbox_Delete :: "'s sys \<Rightarrow> string \<Rightarrow> 's \<Rightarrow> error option \<times> 's" where
  "Dropbox_Delete sys f st = client_DeleteV2 sys f st"

definition chunkSize :: int where
  "chunkSize = 2 ^ 24"

text \<open>\<^verbatim>\<open>&io.LimitedReader{R: f, N: chunkSize}\<close> on a file of which \<open>written\<close> bytes
  have been read.\<close>

definition limited :: "byte list \<Rightarrow> int \<Rightarrow> byte list" where
  "limited data written = take (nat chunkSize) (drop (nat written) data)"

text \<open>The loop \<^verbatim>\<open>for (size - written) > chunkSize\<close> of \<open>Dropbox.Upload\<close>; it returns
  \<open>written\<close> too.\<close>

function append_chunks ::
  "'s sys \<Rightarrow> string \<Rightarrow> byte list \<Rightarrow> int \<Rightarrow> int \<Rightarrow> 's \<Rightarrow> error option \<times> int \<times> 's" where
  "append_chunks sys sessionId data sz written st =
     (if sz - written > chunkSize then
        (case client_UploadSessionAppendV2 sys sessionId written (limited data written) st of
           (Some err, st') \<Rightarrow> (Some err, written, st')
         | (None, st') \<Rightarrow> append_chunks sys sessionId data sz (written + chunkSize) st')
      else (None, written, st))"
  by pat_completeness auto
termination
  by (relation "measure (\<lambda>(sys, sessionId, data, sz, written, st). nat (sz - written))")
     (auto simp: chunkSize_def)

declare append_chunks.simps [simp del]

definition Dropbox_Upload :: "'s sys \<Rightarrow> string \<Rightarrow> string \<Rightarrow> 's \<Rightarrow> error option \<times> 's" where
  "Dropbox_Upload sys local remote st =
     (case os_Open (snapshot sys st) local of
        Inl err \<Rightarrow> (Some err, st)
      | Inr f \<Rightarrow>
          (case os_Stat sys local st of
             Inl err \<Rightarrow> (Some err, st)
           | Inr info \<Rightarrow>
               (let sz = fi_Size info;
                    commitInfo = \<lparr>ci_Path = remote, ci_Mode = ''overwrite''\<rparr>
                in if sz > chunkSize then
                     (case client_UploadSessionStart sys (limited (content f) 0) st of
                        (Inl err, st1) \<Rightarrow> (Some err, st1)
                      | (Inr sessionId, st1) \<Rightarrow>
                          (case append_chunks sys sessionId (content f) sz chunkSize st1 of
                             (Some err, written, st2) \<Rightarrow> (Some err, st2)
                           | (None, written, st2) \<Rightarrow>
                               client_UploadSessionFinish sys sessionId written commitInfo
                                 (drop (nat written) (content f)) st2))
                   else client_Upload sys commitInfo (content f) st)))"

definition Dropbox_Download :: "'s sys \<Rightarrow> string \<Rightarrow> string \<Rightarrow> 's \<Rightarrow> error option \<times> 's" where
  "Dropbox_Download sys local remote st =
     (case client_Download sys remote st of
        (Inl err, st1) \<Rightarrow> (Some err, st1)
      | (Inr result, st1) \<Rightarrow>
          (case os_MkdirAll sys (path_Dir sys local) 509 st1 of
             (Some err, st2) \<Rightarrow> (Some err, st2)
           | (None, st2) \<Rightarrow>
               (case os_Create sys local st2 of
                  (Some err, st3) \<Rightarrow> (Some err, st3)
                | (None, st3) \<Rightarrow> io_Copy sys local result st3)))"

text \<open>
  The Dropbox service as a \<open>StorageService\<close>. \<^verbatim>\<open>repo.go\<close> calls \<^verbatim>\<open>WalkDiffs\<close> with
  three arguments; the \<open>WalkDiffs\<close> above takes the skip predicate too, which is
  \<^verbatim>\<open>nil\<close> here.
\<close>

definition Dropbox :: "'s sys \<Rightarrow> 's StorageService" where
  "Dropbox sys =
     \<lparr>svc_WalkDiffs = (\<lambda>local remote cb st.
        (case WalkDiffs (snapshot sys st) local remote None cb st of (err, evs, st') \<Rightarrow> (err, st'))),
      svc_Upload = Dropbox_Upload sys,
      svc_Download = Dropbox_Download sys,
      svc_Delete = Dropbox_Delete sys\<rparr>"

record ProjectRepository =
  baseFolder :: string
  interactive :: bool

text \<open>The permissions \<^verbatim>\<open>0775\<close>, in decimal.\<close>

definition projectFolderPerm :: nat where
  "projectFolderPerm = 509"

definition ErrNoSuchProject :: error where
  "ErrNoSuchProject = Err ''No such project''"

definition Path :: "'s sys \<Rightarrow> ProjectRepository \<Rightarrow> string \<Rightarrow> string" where
  "Path sys fr name = path_Join sys (baseFolder fr) name"

text \<open>The callback that \<open>ProjectRepository.Upload\<close> hands to \<^verbatim>\<open>WalkDiffs\<close>.\<close>

definition Upload_cb ::
  "'s sys \<Rightarrow> 's StorageService \<Rightarrow> string \<Rightarrow> string \<Rightarrow> 's WalkDiffsCallback" where
  "Upload_cb sys s folder remoteFolder file diff st =
     (case diff of
        DiffResultMatch \<Rightarrow> (None, st)
      | DiffResultMismatch \<Rightarrow>
          svc_Upload s (path_Join sys folder file) (path_Join sys remoteFolder file) st
      | DiffResultOnlyExistsLocal \<Rightarrow>
          svc_Upload s (path_Join sys folder file) (path_Join sys remoteFolder file) st
      | DiffResultOnlyExistsRemote \<Rightarrow>
          svc_Delete s (path_Join sys remoteFolder file) st)"

definition ProjectRepository_Upload ::
  "'s sys \<Rightarrow> ProjectRepository \<Rightarrow> string \<Rightarrow> 's StorageService \<Rightarrow> 's \<Rightarrow> error option \<times> 's" where
  "ProjectRepository_Upload sys fr name s st =
     (let folder = Path sys fr name; remoteFolder = ''/'' @ name
      in case os_Stat sys folder st of
           Inl err \<Rightarrow> if IsNotExist (Some err) then (Some ErrNoSuchProject, st) else (Some err, st)
         | Inr info \<Rightarrow> svc_WalkDiffs s folder remoteFolder (Upload_cb sys s folder remoteFolder) st)"

text \<open>The callback that \<open>ProjectRepository.Pull\<close> hands to \<^verbatim>\<open>WalkDiffs\<close>. The error
  of the \<^verbatim>\<open>os.MkdirAll\<close> before the walk is not looked at.\<close>

definition Pull_cb ::
  "'s sys \<Rightarrow> 's StorageService \<Rightarrow> string \<Rightarrow> string \<Rightarrow> 's WalkDiffsCallback" where
  "Pull_cb sys s folder remoteFolder file diff st =
     (case diff of
        DiffResultMatch \<Rightarrow> (None, st)
      | DiffResultMismatch \<Rightarrow>
          svc_Download s (path_Join sys folder file) (path_Join sys remoteFolder file) st
      | DiffResultOnlyExistsRemote \<Rightarrow>
          svc_Download s (path_Join sys folder file) (path_Join sys remoteFolder file) st
      | DiffResultOnlyExistsLocal \<Rightarrow>
          os_RemoveAll sys (path_Join sys folder file) st)"

definition ProjectRepository_Pull ::
  "'s sys \<Rightarrow> ProjectRepository \<Rightarrow> string \<Rightarrow> 's StorageService \<Rightarrow> 's \<Rightarrow> error option \<times> 's" where
  "ProjectRepository_Pull sys fr name s st =
     (let folder = Path sys fr name; remoteFolder = ''/'' @ name
      in case os_MkdirAll sys folder projectFolderPerm st of
           (err, st1) \<Rightarrow> svc_WalkDiffs s folder remoteFolder (Pull_cb sys s folder remoteFolder) st1)"

text \<open>
  The reconcilers as the specification words them: a policy from a classified path to
  one action, and the actions performed one after the other.
\<close>

datatype action =
    NoAction
  | UploadFile string string
  | DownloadFile string string
  | DeleteRemote string
  | DeleteLocal string

fun perform :: "'s sys \<Rightarrow> 's StorageService \<Rightarrow> action \<Rightarrow> 's \<Rightarrow> error option \<times> 's" where
  "perform sys s NoAction st = (None, st)"
| "perform sys s (UploadFile localFile remoteFile) st = svc_Upload s localFile remoteFile st"
| "perform sys s (DownloadFile localFile remoteFile) st = svc_Download s localFile remoteFile st"
| "perform sys s (DeleteRemote remoteFile) st = svc_Delete s remoteFile st"
| "perform sys s (DeleteLocal localFile) st = os_RemoveAll sys localFile st"

fun push_policy :: "'s sys \<Rightarrow> string \<Rightarrow> string \<Rightarrow> string \<times> DiffResult \<Rightarrow> action" where
  "push_policy sys folder remoteFolder (p, DiffResultMatch) = NoAction"
| "push_policy sys folder remoteFolder (p, DiffResultMismatch) =
     UploadFile (path_Join sys folder p) (path_Join sys remoteFolder p)"
| "push_policy sys folder remoteFolder (p, DiffResultOnlyExistsLocal) =
     UploadFile (path_Join sys folder p) (path_Join sys remoteFolder p)"
| "push_policy sys folder remoteFolder (p, DiffResultOnlyExistsRemote) =
     DeleteRemote (path_Join sys remoteFolder p)"

fun pull_policy :: "'s sys \<Rightarrow> string \<Rightarrow> string \<Rightarrow> string \<times> DiffResult \<Rightarrow> action" where
  "pull_policy sys folder remoteFolder (p, DiffResultMatch) = NoAction"
| "pull_policy sys folder remoteFolder (p, DiffResultMismatch) =
     DownloadFile (path_Join sys folder p) (path_Join sys remoteFolder p)"
| "pull_policy sys folder remoteFolder (p, DiffResultOnlyExistsRemote) =
     DownloadFile (path_Join sys folder p) (path_Join sys remoteFolder p)"
| "pull_policy sys folder remoteFolder (p, DiffResultOnlyExistsLocal) =
     DeleteLocal (path_Join sys folder p)"

definition run_actions :: "'s sys \<Rightarrow> 's StorageService \<Rightarrow> action list \<Rightarrow> 's \<Rightarrow> 's" where
  "run_actions sys s as st = foldl (\<lambda>st a. snd (perform sys s a st)) st as"

text \<open>The system in which every commit is made in mode \<open>overwrite\<close>, whatever mode
  the caller gives.\<close>

definition overwriting :: "'s sys \<Rightarrow> 's sys" where
  "overwriting sys =
     sys\<lparr>client_Upload := (\<lambda>commitInfo. client_Upload sys (commitInfo\<lparr>ci_Mode := ''overwrite''\<rparr>)),
         client_UploadSessionFinish := (\<lambda>sessionId written commitInfo.
           client_UploadSessionFinish sys sessionId written (commitInfo\<lparr>ci_Mode := ''overwrite''\<rparr>))\<rparr>"

section \<open>The diff as the specification words it\<close>

text \<open>
  The specification describes the diff by its parts: a scanner that yields the regular files
  under the root that the skip predicate does not exclude, an inventory of the remote
  files keyed by relative path, and a classification of every path of either side. These
  definitions follow its words; the theorems below compare \<open>WalkDiffs\<close> with them.
\<close>

text \<open>The scanner: what one visit of the walk contributes, as \<open>(relative path, path, info)\<close>.\<close>

definition scan_entry ::
  "env \<Rightarrow> string \<Rightarrow> SkipCallback option \<Rightarrow> string \<times> FileInfo \<times> error option \<Rightarrow>
   (string \<times> string \<times> FileInfo) list" where
  "scan_entry env local skip ent =
     (case ent of (file, info, walkErr) \<Rightarrow>
        (case walkErr of
           Some e \<Rightarrow> []
         | None \<Rightarrow>
             if fi_IsDir info then []
             else (case filepath_Rel env local file of
                     Inl e \<Rightarrow> []
                   | Inr p \<Rightarrow> if skipped skip p info then [] else [(p, file, info)])))"

definition scan ::
  "env \<Rightarrow> string \<Rightarrow> SkipCallback option \<Rightarrow> (string \<times> FileInfo \<times> error option) list \<Rightarrow>
   (string \<times> string \<times> FileInfo) list" where
  "scan env local skip ents = concat (map (scan_entry env local skip) ents)"

definition local_files :: "env \<Rightarrow> string \<Rightarrow> SkipCallback option \<Rightarrow> (string \<times> string \<times> FileInfo) list" where
  "local_files env local skip = scan env local skip (filepath_Walk env local)"

text \<open>The snapshot of the remote side, or the error of taking it.\<close>

definition remote_inventory :: "env \<Rightarrow> string \<Rightarrow> error + remote_map" where
  "remote_inventory env remote =
     (case list_remote env remote of
        Inl err \<Rightarrow> Inl err
      | Inr entList \<Rightarrow> build_remoteFiles env remote entList [])"

text \<open>The classification of a scanned file against the inventory.\<close>

definition classify :: "env \<Rightarrow> remote_map \<Rightarrow> string \<times> string \<times> FileInfo \<Rightarrow> DiffResult" where
  "classify env inventory x =
     (case x of (p, file, info) \<Rightarrow>
        (case map_of inventory p of
           None \<Rightarrow> DiffResultOnlyExistsLocal
         | Some md \<Rightarrow>
             if md_Size md \<noteq> word_of_int (fi_Size info) then DiffResultMismatch
             else if HashLocal env file = Inr (md_ContentHash md) then DiffResultMatch
             else DiffResultMismatch))"

text \<open>The classification of a relative path: of the local file that has it, otherwise
  \<open>OnlyRemote\<close> when the inventory has it, otherwise none.\<close>

definition diff_of ::
  "env \<Rightarrow> (string \<times> string \<times> FileInfo) list \<Rightarrow> remote_map \<Rightarrow> string \<Rightarrow> DiffResult option" where
  "diff_of env locals inventory p =
     (case find (\<lambda>x. fst x = p) locals of
        Some x \<Rightarrow> Some (classify env inventory x)
      | None \<Rightarrow> if map_of inventory p = None then None else Some DiffResultOnlyExistsRemote)"

text \<open>What a complete run does for a scanned file, and whether its hash, if needed,
  can be computed.\<close>

definition events_of :: "env \<Rightarrow> remote_map \<Rightarrow> string \<times> string \<times> FileInfo \<Rightarrow> event list" where
  "events_of env inventory x =
     (case x of (p, file, info) \<Rightarrow>
        (case map_of inventory p of
           None \<Rightarrow> [Emitted p DiffResultOnlyExistsLocal]
         | Some md \<Rightarrow>
             if md_Size md \<noteq> word_of_int (fi_Size info) then [Emitted p DiffResultMismatch]
             else if HashLocal env file = Inr (md_ContentHash md) then [Hashed file]
             else [Hashed file, Emitted p DiffResultMismatch]))"

definition hashes :: "env \<Rightarrow> remote_map \<Rightarrow> string \<times> string \<times> FileInfo \<Rightarrow> bool" where
  "hashes env inventory x =
     (case x of (p, file, info) \<Rightarrow>
        (case map_of inventory p of
           None \<Rightarrow> True
         | Some md \<Rightarrow> md_Size md \<noteq> word_of_int (fi_Size info) \<or> \<not> isl (HashLocal env file)))"

definition emit_of :: "env \<Rightarrow> remote_map \<Rightarrow> string \<times> string \<times> FileInfo \<Rightarrow> (string \<times> DiffResult) list" where
  "emit_of env inventory x =
     (if classify env inventory x = DiffResultMatch then [] else [(fst x, classify env inventory x)])"

text \<open>The paths left in the inventory after the walk, in the order of the final loop.\<close>

definition remaining :: "env \<Rightarrow> (string \<times> string \<times> FileInfo) list \<Rightarrow> remote_map \<Rightarrow> string list" where
  "remaining env locals inventory =
     sort_key (range_rank env) (filter (\<lambda>k. k \<notin> fst ` set locals) (map fst inventory))"

section \<open>Example trees\<close>

text \<open>
  Concrete inputs on which the definitions are evaluated. The project \<open>p\<close> lives in
  \<open>/home/p\<close> and is mirrored in the remote folder \<open>/p\<close>. \<open>strip_root\<close>,
  \<open>join_path\<close> and \<open>dir_path\<close> stand for \<^verbatim>\<open>filepath.Rel\<close>, \<^verbatim>\<open>path.Join\<close> and
  \<^verbatim>\<open>path.Dir\<close> on the clean absolute paths of these examples.
\<close>

definition strip_root :: "string \<Rightarrow> string \<Rightarrow> error + string" where
  "strip_root root path =
     (if HasPrefix path (root @ ''/'') then Inr (drop (Suc (length root)) path)
      else Inl (Err (''Rel: cannot make '' @ path @ '' relative to '' @ root)))"

definition join_path :: "string \<Rightarrow> string \<Rightarrow> string" where
  "join_path a b = (if a = ''/'' then a @ b else a @ ''/'' @ b)"

definition dir_path :: "string \<Rightarrow> string" where
  "dir_path p =
     (let d = rev (tl (dropWhile (\<lambda>c. c \<noteq> CHR ''/'') (rev p))) in if d = [] then ''/'' else d)"

definition regular :: "int \<Rightarrow> FileInfo" where
  "regular n = \<lparr>fi_IsDir = False, fi_Size = n\<rparr>"

definition directory :: FileInfo where
  "directory = \<lparr>fi_IsDir = True, fi_Size = 4096\<rparr>"

definition remote_file :: "string \<Rightarrow> 64 word \<Rightarrow> string \<Rightarrow> IsMetadata" where
  "remote_file path n h = IsFile \<lparr>md_PathDisplay = path, md_Size = n, md_ContentHash = h\<rparr>"

text \<open>
  A tree and a listing with a path of each kind: \<open>a.txt\<close> is local only, \<open>b.txt\<close>
  has the declared size and hash, \<open>m.txt\<close> the declared size and another hash,
  \<open>x.txt\<close> another size, and \<open>c.txt\<close> is remote only.
\<close>

definition tree_files :: "(string \<times> FileInfo \<times> byte list) list" where
  "tree_files =
     [(''/home/p'', directory, []),
      (''/home/p/a.txt'', regular 1, [0x61]),
      (''/home/p/b.txt'', regular 1, [0x62]),
      (''/home/p/m.txt'', regular 1, [0x6d]),
      (''/home/p/x.txt'', regular 2, [0x78, 0x78])]"

definition tree_listing :: "IsMetadata list" where
  "tree_listing =
     [IsFolder ''/p'',
      remote_file ''/p/b.txt'' 1 ''39361160903c6695c6804b7157c7bd10013e9ba89b1f954243bc8e3990b08db9'',
      remote_file ''/p/c.txt'' 3 ''c3'',
      remote_file ''/p/m.txt'' 1 ''00'',
      remote_file ''/p/x.txt'' 5 ''x5'']"

text \<open>The environment of a walk over a list of local files with their bytes, each read
  in one call of \<^verbatim>\<open>Read\<close>, and a given answer of the listing.\<close>

definition disk_env :: "(string \<times> FileInfo \<times> byte list) list \<Rightarrow> (error + IsMetadata list) \<Rightarrow> env" where
  "disk_env files listing =
     \<lparr>client_ListFolder = (\<lambda>path. listing),
      client_CreateFolderV2 = (\<lambda>path. None),
      filepath_Rel = strip_root,
      filepath_Walk = (\<lambda>root. map (\<lambda>(file, info, bytes). (file, info, None)) files),
      os_Open = (\<lambda>file.
        (case find (\<lambda>(f, info, bytes). f = file) files of
           Some (f, info, bytes) \<Rightarrow> Inr [(bytes, None)]
         | None \<Rightarrow> Inl (NotExist (''open '' @ file @ '': no such file or directory'')))),
      range_rank = (\<lambda>path. 0)\<rparr>"

definition tree_env :: env where
  "tree_env = disk_env tree_files (Inr tree_listing)"

text \<open>The same tree with no remote folder, and with a remote folder that cannot be
  created.\<close>

definition absent_env :: env where
  "absent_env = disk_env tree_files (Inl (Err ''path/not_found/...''))"

definition denied_env :: env where
  "denied_env =
     absent_env\<lparr>client_CreateFolderV2 := (\<lambda>path. Some (Err ''path/no_write_permission/...''))\<rparr>"

text \<open>One file, whose remote copy has the same size and another hash.\<close>

definition stale_files :: "(string \<times> FileInfo \<times> byte list) list" where
  "stale_files = [(''/home/p'', directory, []), (''/home/p/m.txt'', regular 1, [0x6d])]"

definition stale_env :: env where
  "stale_env = disk_env stale_files (Inr [remote_file ''/p/m.txt'' 1 ''00''])"

text \<open>A callback that records its calls, and one that also fails for one path.\<close>

definition log_cb :: "(string \<times> DiffResult) list WalkDiffsCallback" where
  "log_cb p d s = (None, s @ [(p, d)])"

definition failing_cb :: "string \<Rightarrow> (string \<times> DiffResult) list WalkDiffsCallback" where
  "failing_cb bad p d s = (if p = bad then Some (Err ''upload failed'') else None, s @ [(p, d)])"

text \<open>
  A system whose state is the list of the calls made so far. Each call is recorded and
  answered as \<open>outcome\<close> says; a download delivers three bytes; the local files and the
  listing do not change.
\<close>

datatype call =
    CallDeleteV2 string
  | CallUpload CommitInfo "byte list"
  | CallUploadSessionStart "byte list"
  | CallUploadSessionAppendV2 string int "byte list"
  | CallUploadSessionFinish string int CommitInfo "byte list"
  | CallDownload string
  | CallMkdirAll string nat
  | CallRemoveAll string
  | CallCreate string
  | CallCopy string "byte list"

definition record_call :: "(call \<Rightarrow> error option) \<Rightarrow> call \<Rightarrow> call list \<Rightarrow> error option \<times> call list" where
  "record_call outcome c st = (outcome c, st @ [c])"

definition recording_sys ::
  "(string \<times> FileInfo \<times> byte list) list \<Rightarrow> env \<Rightarrow> (call \<Rightarrow> error option) \<Rightarrow> call list sys" where
  "recording_sys files env outcome =
     \<lparr>snapshot = (\<lambda>st. env),
      path_Join = join_path,
      path_Dir = dir_path,
      os_Stat = (\<lambda>path st.
        (case find (\<lambda>(f, info, bytes). f = path) files of
           Some (f, info, bytes) \<Rightarrow> Inr info
         | None \<Rightarrow> Inl (NotExist (''stat '' @ path @ '': no such file or directory'')))),
      os_MkdirAll = (\<lambda>path perm. record_call outcome (CallMkdirAll path perm)),
      os_RemoveAll = (\<lambda>path. record_call outcome (CallRemoveAll path)),
      os_Create = (\<lambda>path. record_call outcome (CallCreate path)),
      io_Copy = (\<lambda>path bytes. record_call outcome (CallCopy path bytes)),
      client_DeleteV2 = (\<lambda>path. record_call outcome (CallDeleteV2 path)),
      client_Upload = (\<lambda>commitInfo bytes. record_call outcome (CallUpload commitInfo bytes)),
      client_UploadSessionStart = (\<lambda>bytes st.
        (case outcome (CallUploadSessionStart bytes) of
           Some err \<Rightarrow> (Inl err, st @ [CallUploadSessionStart bytes])
         | None \<Rightarrow> (Inr ''session'', st @ [CallUploadSessionStart bytes]))),
      client_UploadSessionAppendV2 = (\<lambda>sessionId written bytes.
        record_call outcome (CallUploadSessionAppendV2 sessionId written bytes)),
      client_UploadSessionFinish = (\<lambda>sessionId written commitInfo bytes.
        record_call outcome (CallUploadSessionFinish sessionId written commitInfo bytes)),
      client_Download = (\<lambda>path st.
        (case outcome (CallDownload path) of
           Some err \<Rightarrow> (Inl err, st @ [CallDownload path])
         | None \<Rightarrow> (Inr [0x63, 0x63, 0x63], st @ [CallDownload path])))\<rparr>"

definition all_succeed :: "call \<Rightarrow> error option" where
  "all_succeed c = None"

definition uploads_fail :: "call \<Rightarrow> error option" where
  "uploads_fail c = (case c of CallUpload commitInfo bytes \<Rightarrow> Some (Err ''upload failed'') | _ \<Rightarrow> None)"

definition home :: ProjectRepository where
  "home = \<lparr>baseFolder = ''/home'', interactive = False\<rparr>"

text \<open>Scenarios 1 and 2 of the specification: \<open>a.txt\<close> and \<open>b.txt\<close> locally,
  \<open>b.txt\<close> (the same) and \<open>c.txt\<close> remotely.\<close>

definition scenario_files :: "(string \<times> FileInfo \<times> byte list) list" where
  "scenario_files =
     [(''/home/p'', directory, []),
      (''/home/p/a.txt'', regular 1, [0x61]),
      (''/home/p/b.txt'', regular 1, [0x62])]"

definition scenario_env :: env where
  "scenario_env = disk_env scenario_files (Inr
     [IsFolder ''/p'',
      remote_file ''/p/b.txt'' 1 ''39361160903c6695c6804b7157c7bd10013e9ba89b1f954243bc8e3990b08db9'',
      remote_file ''/p/c.txt'' 3 ''c3''])"

text \<open>A skip predicate for \<open>b.txt\<close> and \<open>m.txt\<close>.\<close>

definition skip_bm :: SkipCallback where
  "skip_bm p info = (p = ''b.txt'' \<or> p = ''m.txt'')"

definition scenario_sys :: "call list sys" where
  "scenario_sys = recording_sys scenario_files scenario_env all_succeed"

definition stale_sys :: "call list sys" where
  "stale_sys = recording_sys stale_files stale_env uploads_fail"

text \<open>What the walk over \<open>tree_env\<close> does, and the inventory it starts from.\<close>

definition tree_events :: "event list" where
  "tree_events =
     [Emitted ''a.txt'' DiffResultOnlyExistsLocal, Hashed ''/home/p/b.txt'',
      Hashed ''/home/p/m.txt'', Emitted ''m.txt'' DiffResultMismatch,
      Emitted ''x.txt'' DiffResultMismatch, Emitted ''c.txt'' DiffResultOnlyExistsRemote]"

definition tree_calls :: "(string \<times> DiffResult) list" where
  "tree_calls =
     [(''a.txt'', DiffResultOnlyExistsLocal), (''m.txt'', DiffResultMismatch),
      (''x.txt'', DiffResultMismatch), (''c.txt'', DiffResultOnlyExistsRemote)]"

definition tree_inventory :: remote_map where
  "tree_inventory =
     [(''b.txt'', \<lparr>md_PathDisplay = ''/p/b.txt'', md_Size = 1,
         md_ContentHash = ''39361160903c6695c6804b7157c7bd10013e9ba89b1f954243bc8e3990b08db9''\<rparr>),
      (''c.txt'', \<lparr>md_PathDisplay = ''/p/c.txt'', md_Size = 3, md_ContentHash = ''c3''\<rparr>),
      (''m.txt'', \<lparr>md_PathDisplay = ''/p/m.txt'', md_Size = 1, md_ContentHash = ''00''\<rparr>),
      (''x.txt'', \<lparr>md_PathDisplay = ''/p/x.txt'', md_Size = 5, md_ContentHash = ''x5''\<rparr>)]"

section \<open>Properties of the diff walk\<close>

subsection \<open>No call with \<open>Match\<close>\<close>

lemma emissions_append: "emissions (xs @ ys) = emissions xs @ emissions ys"
  by (induction xs rule: emissions.induct) simp_all

lemma walkFn_no_Match:
  "walkFn env local skip cb ent rf s = (err, rf', evs, s') \<Longrightarrow>
   (p, DiffResultMatch) \<notin> set (emissions evs)"
  by (auto simp: walkFn_def split: prod.splits option.splits if_splits sum.splits)

lemma Walk_no_Match:
  "Walk (walkFn env local skip cb) ents rf s = (err, rf', evs, s') \<Longrightarrow>
   (p, DiffResultMatch) \<notin> set (emissions evs)"
proof (induction ents arbitrary: rf s err rf' evs s')
  case Nil
  then show ?case by simp
next
  case (Cons ent ents)
  obtain e1 rf1 evs1 s1 where step: "walkFn env local skip cb ent rf s = (e1, rf1, evs1, s1)"
    by (metis prod_cases4)
  note first = walkFn_no_Match [OF step, of p]
  show ?case
  proof (cases e1)
    case (Some e)
    with Cons.prems step first show ?thesis by simp
  next
    case None
    obtain e2 rf2 evs2 s2 where
      rest: "Walk (walkFn env local skip cb) ents rf1 s1 = (e2, rf2, evs2, s2)"
      by (metis prod_cases4)
    from Cons.IH [OF rest] first Cons.prems step None rest show ?thesis
      by (auto simp: emissions_append)
  qed
qed

lemma range_remote_emissions:
  "range_remote cb ps s = (err, evs, s') \<Longrightarrow>
   emissions evs = map (\<lambda>p. (p, DiffResultOnlyExistsRemote)) (take (length (emissions evs)) ps)"
proof (induction ps arbitrary: s err evs s')
  case Nil
  then show ?case by simp
next
  case (Cons p ps)
  obtain e1 s1 where c: "cb p DiffResultOnlyExistsRemote s = (e1, s1)"
    by (metis prod.exhaust)
  show ?case
  proof (cases e1)
    case (Some e)
    with Cons.prems c show ?thesis by auto
  next
    case None
    obtain e2 evs2 s2 where r: "range_remote cb ps s1 = (e2, evs2, s2)"
      by (metis prod_cases3)
    from Cons.IH [OF r] Cons.prems c None r show ?thesis by auto
  qed
qed

lemma range_remote_no_Match:
  assumes "range_remote cb ps s = (err, evs, s')"
  shows "(p, DiffResultMatch) \<notin> set (emissions evs)"
proof
  assume "(p, DiffResultMatch) \<in> set (emissions evs)"
  then have "(p, DiffResultMatch) \<in>
      set (map (\<lambda>p. (p, DiffResultOnlyExistsRemote)) (take (length (emissions evs)) ps))"
    using range_remote_emissions [OF assms] by simp
  then show False by auto
qed

text \<open>
  C10. \<open>WalkDiffs\<close> never calls the callback with \<open>DiffResultMatch\<close>, whatever the
  listing, the local tree, the skip predicate and the callback are: when sizes and
  hashes agree the entry leaves \<open>remoteFiles\<close> and nothing is emitted, so the
  \<open>DiffResultMatch\<close> case of a callback is never reached.
\<close>

theorem WalkDiffs_never_emits_Match:
  "(p, DiffResultMatch) \<notin> set (emissions (fst (snd (WalkDiffs env local remote skip cb s))))"
proof (cases "list_remote env remote")
  case (Inl err)
  then show ?thesis by (simp add: WalkDiffs_def)
next
  case (Inr entList)
  show ?thesis
  proof (cases "build_remoteFiles env remote entList []")
    case (Inl err)
    with Inr show ?thesis by (simp add: WalkDiffs_def)
  next
    case rf: (Inr remoteFiles)
    obtain e1 rf1 evs1 s1 where
      w: "Walk (walkFn env local skip cb) (filepath_Walk env local) remoteFiles s = (e1, rf1, evs1, s1)"
      by (metis prod_cases4)
    note a = Walk_no_Match [OF w, of p]
    show ?thesis
    proof (cases e1)
      case (Some e)
      with Inr rf w a show ?thesis by (simp add: WalkDiffs_def)
    next
      case None
      obtain e2 evs2 s2 where
        r: "range_remote cb (sort_key (range_rank env) (map fst rf1)) s1 = (e2, evs2, s2)"
        by (metis prod_cases3)
      from range_remote_no_Match [OF r, of p] Inr rf w a None r show ?thesis
        by (simp add: WalkDiffs_def emissions_append)
    qed
  qed
qed

subsection \<open>Runs that return no error\<close>

lemma emissions_events_of: "emissions (events_of env rf x) = emit_of env rf x"
  by (cases x) (simp add: events_of_def emit_of_def classify_def split: option.splits)

lemma delete_absent: "map_of rf p = None \<Longrightarrow> AList.delete p rf = rf"
  by (simp add: map_of_eq_None_iff)

lemma walkFn_ok:
  assumes "walkFn env local skip cb ent rf s = (None, rf', evs, s')"
  shows "evs = concat (map (events_of env rf) (scan_entry env local skip ent))"
    and "rf' = fold (\<lambda>x. AList.delete (fst x)) (scan_entry env local skip ent) rf"
    and "list_all (hashes env rf) (scan_entry env local skip ent)"
  using assms
  by (auto simp: walkFn_def scan_entry_def events_of_def hashes_def delete_absent
           split: prod.splits option.splits if_splits sum.splits)

lemma events_of_delete:
  "fst x \<noteq> k \<Longrightarrow> events_of env (AList.delete k rf) x = events_of env rf x"
  by (cases x) (simp add: events_of_def delete_conv')

lemma hashes_delete:
  "fst x \<noteq> k \<Longrightarrow> hashes env (AList.delete k rf) x = hashes env rf x"
  by (cases x) (simp add: hashes_def delete_conv')

lemma events_of_fold_delete:
  "fst x \<notin> fst ` set ys \<Longrightarrow>
   events_of env (fold (\<lambda>y. AList.delete (fst y)) ys rf) x = events_of env rf x"
  by (induction ys arbitrary: rf) (auto simp: events_of_delete)

lemma hashes_fold_delete:
  "fst x \<notin> fst ` set ys \<Longrightarrow>
   hashes env (fold (\<lambda>y. AList.delete (fst y)) ys rf) x = hashes env rf x"
  by (induction ys arbitrary: rf) (auto simp: hashes_delete)

lemma Walk_ok:
  assumes "Walk (walkFn env local skip cb) ents rf s = (None, rf', evs, s')"
      and "distinct (map fst (scan env local skip ents))"
  shows "evs = concat (map (events_of env rf) (scan env local skip ents)) \<and>
         rf' = fold (\<lambda>x. AList.delete (fst x)) (scan env local skip ents) rf \<and>
         list_all (hashes env rf) (scan env local skip ents)"
  using assms
proof (induction ents arbitrary: rf s evs rf' s')
  case Nil
  then show ?case by (simp add: scan_def)
next
  case (Cons ent ents)
  obtain e1 rf1 evs1 s1 where step: "walkFn env local skip cb ent rf s = (e1, rf1, evs1, s1)"
    by (metis prod_cases4)
  with Cons.prems(1) have e1: "e1 = None"
    by (auto split: option.splits prod.splits)
  obtain e2 rf2 evs2 s2 where
    rest: "Walk (walkFn env local skip cb) ents rf1 s1 = (e2, rf2, evs2, s2)"
    by (metis prod_cases4)
  with Cons.prems(1) step e1 have eq: "e2 = None" "rf2 = rf'" "evs = evs1 @ evs2" "s2 = s'"
    by auto
  let ?here = "scan_entry env local skip ent"
  let ?tail = "scan env local skip ents"
  from Cons.prems(2) have d: "distinct (map fst ?tail)"
    and disj: "fst ` set ?here \<inter> fst ` set ?tail = {}"
    by (auto simp: scan_def)
  note first = walkFn_ok [OF step [unfolded e1]]
  from Cons.IH [OF rest [unfolded eq(1)] d]
  have ih: "evs2 = concat (map (events_of env rf1) ?tail)"
           "rf2 = fold (\<lambda>x. AList.delete (fst x)) ?tail rf1"
           "list_all (hashes env rf1) ?tail"
    by auto
  have same: "events_of env rf1 x = events_of env rf x \<and> hashes env rf1 x = hashes env rf x"
    if "x \<in> set ?tail" for x
  proof -
    from that disj have "fst x \<notin> fst ` set ?here" by auto
    then show ?thesis
      unfolding first(2) by (simp add: events_of_fold_delete hashes_fold_delete)
  qed
  have m: "map (events_of env rf1) ?tail = map (events_of env rf) ?tail"
    by (rule map_cong [OF refl]) (simp add: same)
  have "evs = concat (map (events_of env rf) ?here) @ concat (map (events_of env rf1) ?tail)"
    using first(1) ih(1) eq(3) by simp
  also have "\<dots> = concat (map (events_of env rf) ?here) @ concat (map (events_of env rf) ?tail)"
    by (simp only: m)
  also have "\<dots> = concat (map (events_of env rf) (scan env local skip (ent # ents)))"
    by (simp add: scan_def)
  finally have a: "evs = concat (map (events_of env rf) (scan env local skip (ent # ents)))" .
  have b: "rf' = fold (\<lambda>x. AList.delete (fst x)) (scan env local skip (ent # ents)) rf"
    using ih(2) first(2) eq(2) by (simp add: scan_def)
  have "list_all (hashes env rf) ?tail"
    using ih(3) same by (simp add: list_all_iff)
  with first(3) have c: "list_all (hashes env rf) (scan env local skip (ent # ents))"
    by (simp add: scan_def)
  from a b c show ?case by simp
qed

lemma keys_fold_delete:
  "map fst (fold (\<lambda>x. AList.delete (fst x)) xs rf) = filter (\<lambda>k. k \<notin> fst ` set xs) (map fst rf)"
proof (induction xs arbitrary: rf)
  case Nil
  then show ?case by simp
next
  case (Cons x xs)
  show ?case
    by (simp add: Cons.IH delete_keys removeAll_filter_not_eq conj_commute eq_commute)
qed

lemma range_remote_ok:
  "range_remote cb ps s = (None, evs, s') \<Longrightarrow>
   evs = map (\<lambda>p. Emitted p DiffResultOnlyExistsRemote) ps"
proof (induction ps arbitrary: s evs)
  case Nil
  then show ?case by simp
next
  case (Cons p ps)
  then show ?case
    by (auto split: prod.splits option.splits)
qed

lemma build_remoteFiles_distinct:
  "build_remoteFiles env remote entList rf = Inr rf' \<Longrightarrow> distinct (map fst rf) \<Longrightarrow>
   distinct (map fst rf')"
  by (induction env remote entList rf rule: build_remoteFiles.induct)
     (auto split: sum.splits simp: distinct_update)

lemma remote_inventory_distinct:
  "remote_inventory env remote = Inr rf \<Longrightarrow> distinct (map fst rf)"
  by (auto simp: remote_inventory_def split: sum.splits dest: build_remoteFiles_distinct)

lemma WalkDiffs_ok:
  assumes run: "WalkDiffs env local remote skip cb s = (None, evs, s')"
      and dist: "distinct (map fst (local_files env local skip))"
  obtains rf where "remote_inventory env remote = Inr rf"
    and "evs = concat (map (events_of env rf) (local_files env local skip)) @
               map (\<lambda>p. Emitted p DiffResultOnlyExistsRemote)
                 (remaining env (local_files env local skip) rf)"
    and "list_all (hashes env rf) (local_files env local skip)"
proof -
  from run obtain entList where l: "list_remote env remote = Inr entList"
    by (auto simp: WalkDiffs_def split: sum.splits)
  with run obtain rf where b: "build_remoteFiles env remote entList [] = Inr rf"
    by (auto simp: WalkDiffs_def split: sum.splits)
  obtain e1 rf1 evs1 s1 where
    w: "Walk (walkFn env local skip cb) (filepath_Walk env local) rf s = (e1, rf1, evs1, s1)"
    by (metis prod_cases4)
  with run l b have e1: "e1 = None"
    by (auto simp: WalkDiffs_def split: option.splits prod.splits)
  obtain e2 evs2 s2 where
    r: "range_remote cb (sort_key (range_rank env) (map fst rf1)) s1 = (e2, evs2, s2)"
    by (metis prod_cases3)
  with run l b w e1 have eq: "e2 = None" "evs = evs1 @ evs2"
    by (auto simp: WalkDiffs_def)
  from Walk_ok [OF w [unfolded e1] dist [unfolded local_files_def]]
  have k: "evs1 = concat (map (events_of env rf) (local_files env local skip))"
          "rf1 = fold (\<lambda>x. AList.delete (fst x)) (local_files env local skip) rf"
          "list_all (hashes env rf) (local_files env local skip)"
    by (simp_all add: local_files_def)
  from range_remote_ok [OF r [unfolded eq(1)]]
  have "evs2 = map (\<lambda>p. Emitted p DiffResultOnlyExistsRemote)
                 (remaining env (local_files env local skip) rf)"
    by (simp add: k(2) keys_fold_delete remaining_def)
  with k eq l b that show ?thesis
    by (simp add: remote_inventory_def)
qed

lemma filter_path_absent:
  "p \<notin> fst ` set xs \<Longrightarrow> filter (\<lambda>e. fst e = p) (concat (map (emit_of env rf) xs)) = []"
  by (induction xs) (auto simp: emit_of_def)

lemma filter_path_locals:
  "distinct (map fst xs) \<Longrightarrow>
   filter (\<lambda>e. fst e = p) (concat (map (emit_of env rf) xs)) =
     (case find (\<lambda>x. fst x = p) xs of None \<Rightarrow> [] | Some x \<Rightarrow> emit_of env rf x)"
proof (induction xs)
  case Nil
  then show ?case by simp
next
  case (Cons x xs)
  show ?case
  proof (cases "fst x = p")
    case True
    with Cons.prems have "p \<notin> fst ` set xs" by auto
    with True show ?thesis
      by (simp add: filter_path_absent) (simp add: emit_of_def)
  next
    case False
    with Cons show ?thesis by (simp add: emit_of_def)
  qed
qed

lemma filter_eq_distinct:
  "distinct ks \<Longrightarrow> filter (\<lambda>q. q = p) ks = (if p \<in> set ks then [p] else [])"
  by (induction ks) auto

lemma emissions_concat:
  "emissions (concat (map (events_of env rf) xs)) = concat (map (emit_of env rf) xs)"
  by (induction xs) (simp_all add: emissions_append emissions_events_of)

lemma emissions_map_Emitted: "emissions (map (\<lambda>p. Emitted p d) ps) = map (\<lambda>p. (p, d)) ps"
  by (induction ps) simp_all

lemma find_None_paths: "find (\<lambda>x. fst x = p) xs = None \<longleftrightarrow> p \<notin> fst ` set xs"
  by (force simp: find_None_iff)

lemma find_Some_paths: "find (\<lambda>x. fst x = p) xs = Some x \<Longrightarrow> fst x = p \<and> x \<in> set xs"
  by (auto simp: find_Some_iff)

lemma emissions_of_path:
  assumes run: "WalkDiffs env local remote skip cb s = (None, evs, s')"
      and dist: "distinct (map fst (local_files env local skip))"
      and inv: "remote_inventory env remote = Inr rf"
  shows "filter (\<lambda>e. fst e = p) (emissions evs) =
           (case diff_of env (local_files env local skip) rf p of
              None \<Rightarrow> []
            | Some DiffResultMatch \<Rightarrow> []
            | Some d \<Rightarrow> [(p, d)])"
proof -
  let ?L = "local_files env local skip"
  from WalkDiffs_ok [OF run dist] inv
  have evs: "evs = concat (map (events_of env rf) ?L) @
               map (\<lambda>p. Emitted p DiffResultOnlyExistsRemote) (remaining env ?L rf)"
    by auto
  have dk: "distinct (remaining env ?L rf)"
    using remote_inventory_distinct [OF inv] by (simp add: remaining_def)
  have sk: "set (remaining env ?L rf) = {k \<in> fst ` set rf. k \<notin> fst ` set ?L}"
    by (auto simp: remaining_def)
  have split: "filter (\<lambda>e. fst e = p) (emissions evs) =
      (case find (\<lambda>x. fst x = p) ?L of None \<Rightarrow> [] | Some x \<Rightarrow> emit_of env rf x) @
      map (\<lambda>q. (q, DiffResultOnlyExistsRemote)) (filter (\<lambda>q. q = p) (remaining env ?L rf))"
    by (simp add: evs emissions_append emissions_concat emissions_map_Emitted
        filter_path_locals [OF dist] filter_map comp_def)
  show ?thesis
  proof (cases "find (\<lambda>x. fst x = p) ?L")
    case None
    then have "p \<notin> fst ` set ?L" by (simp add: find_None_paths)
    with None show ?thesis
      by (simp add: split diff_of_def filter_eq_distinct [OF dk] sk map_of_eq_None_iff)
  next
    case (Some x)
    from find_Some_paths [OF Some] have px: "fst x = p" "p \<in> fst ` set ?L" by auto
    with Some show ?thesis
      by (simp add: split diff_of_def filter_eq_distinct [OF dk] sk emit_of_def
               split: DiffResult.splits)
  qed
qed


lemma distinct_paths_of_filters:
  "(\<And>p. length (filter (\<lambda>e. fst e = p) xs) \<le> 1) \<Longrightarrow> distinct (map fst xs)"
proof (induction xs)
  case Nil
  then show ?case by simp
next
  case (Cons x xs)
  have one: "length (filter (\<lambda>e. fst e = p) xs) \<le> 1" for p
    using Cons.prems [of p] by (simp split: if_splits)
  have "fst x \<notin> fst ` set xs"
  proof
    assume "fst x \<in> fst ` set xs"
    then obtain y where "y \<in> set xs" "fst y = fst x" by auto
    then have "filter (\<lambda>e. fst e = fst x) xs \<noteq> []"
      by (auto simp: filter_empty_conv)
    then have "0 < length (filter (\<lambda>e. fst e = fst x) xs)" by simp
    with Cons.prems [of "fst x"] show False by simp
  qed
  with Cons.IH one show ?case by simp
qed

text \<open>
  C3. In a run of \<open>WalkDiffs\<close> that returns no error, over a local tree whose scanned
  files have distinct relative paths, every relative path is accounted for once: the calls
  of the callback for a path \<open>p\<close> are none when \<open>p\<close> is on neither side or is a
  \<open>Match\<close> (which is not emitted), and otherwise the single call \<open>(p, d)\<close> with \<open>d\<close>
  the classification of \<open>p\<close>; no path is passed to the callback twice.
\<close>

theorem WalkDiffs_classifies_once:
  assumes "WalkDiffs env local remote skip cb s = (None, evs, s')"
      and "distinct (map fst (local_files env local skip))"
      and "remote_inventory env remote = Inr inventory"
  shows "filter (\<lambda>e. fst e = p) (emissions evs) =
           (case diff_of env (local_files env local skip) inventory p of
              None \<Rightarrow> []
            | Some DiffResultMatch \<Rightarrow> []
            | Some d \<Rightarrow> [(p, d)]) \<and>
         distinct (map fst (emissions evs))"
proof
  show "filter (\<lambda>e. fst e = p) (emissions evs) =
           (case diff_of env (local_files env local skip) inventory p of
              None \<Rightarrow> []
            | Some DiffResultMatch \<Rightarrow> []
            | Some d \<Rightarrow> [(p, d)])"
    by (rule emissions_of_path [OF assms])
  show "distinct (map fst (emissions evs))"
  proof (rule distinct_paths_of_filters)
    fix q
    show "length (filter (\<lambda>e. fst e = q) (emissions evs)) \<le> 1"
      by (simp add: emissions_of_path [OF assms] split: option.splits DiffResult.splits)
  qed
qed

lemma scan_entry_Rel:
  "(p, file, info) \<in> set (scan_entry env local skip ent) \<Longrightarrow>
   filepath_Rel env local file = Inr p \<and> \<not> skipped skip p info \<and> (file, info, None) = ent"
proof -
  assume a: "(p, file, info) \<in> set (scan_entry env local skip ent)"
  obtain f i w where ent: "ent = (f, i, w)" by (cases ent)
  show ?thesis
  proof (cases w)
    case (Some e)
    with a ent show ?thesis by (simp add: scan_entry_def)
  next
    case None
    show ?thesis
    proof (cases "filepath_Rel env local f")
      case (Inl e)
      with a ent None show ?thesis by (simp add: scan_entry_def split: if_splits)
    next
      case (Inr q)
      with a ent None show ?thesis by (simp add: scan_entry_def split: if_splits)
    qed
  qed
qed

lemma scan_Rel:
  "(p, file, info) \<in> set (scan env local skip ents) \<Longrightarrow>
   filepath_Rel env local file = Inr p \<and> \<not> skipped skip p info \<and> (file, info, None) \<in> set ents"
  by (auto simp: scan_def dest: scan_entry_Rel)

lemma find_distinct_paths:
  "distinct (map fst xs) \<Longrightarrow> (p, v) \<in> set xs \<Longrightarrow> find (\<lambda>x. fst x = p) xs = Some (p, v)"
  by (induction xs) (auto simp: rev_image_eqI)

lemma Hashed_events_of:
  "Hashed f \<in> set (events_of env rf x) \<Longrightarrow>
   fst (snd x) = f \<and>
   (\<exists>md. map_of rf (fst x) = Some md \<and> md_Size md = word_of_int (fi_Size (snd (snd x))))"
  by (cases x) (auto simp: events_of_def split: option.splits if_splits)

text \<open>
  C4. In a run that returns no error, for a scanned file whose relative path \<open>p\<close> the
  inventory has too: when the declared size differs from the local size, \<open>(p, Mismatch)\<close>
  is the one call of the callback for \<open>p\<close> and the file is not hashed; when the sizes
  agree the file is hashed, and the calls for \<open>p\<close> are none when the hash equals the
  declared one (a \<open>Match\<close>, not emitted) and the single \<open>(p, Mismatch)\<close> otherwise.
\<close>

theorem WalkDiffs_both_sides:
  assumes run: "WalkDiffs env local remote skip cb s = (None, evs, s')"
      and dist: "distinct (map fst (local_files env local skip))"
      and inv: "remote_inventory env remote = Inr inventory"
      and loc: "(p, file, info) \<in> set (local_files env local skip)"
      and rem: "map_of inventory p = Some md"
  shows "if md_Size md \<noteq> word_of_int (fi_Size info)
         then filter (\<lambda>e. fst e = p) (emissions evs) = [(p, DiffResultMismatch)] \<and>
              Hashed file \<notin> set evs
         else Hashed file \<in> set evs \<and>
              (\<exists>hash. HashLocal env file = Inr hash \<and>
                 filter (\<lambda>e. fst e = p) (emissions evs) =
                   (if hash = md_ContentHash md then [] else [(p, DiffResultMismatch)]))"
proof -
  let ?L = "local_files env local skip"
  from WalkDiffs_ok [OF run dist] inv
  have evs: "evs = concat (map (events_of env inventory) ?L) @
               map (\<lambda>p. Emitted p DiffResultOnlyExistsRemote) (remaining env ?L inventory)"
    and hs: "list_all (hashes env inventory) ?L"
    by auto
  have f: "find (\<lambda>x. fst x = p) ?L = Some (p, file, info)"
    by (rule find_distinct_paths [OF dist loc])
  note em = emissions_of_path [OF run dist inv, of p]
  show ?thesis
  proof (cases "md_Size md \<noteq> word_of_int (fi_Size info)")
    case True
    have "Hashed file \<notin> set evs"
    proof
      assume "Hashed file \<in> set evs"
      then obtain x where x: "x \<in> set ?L" "Hashed file \<in> set (events_of env inventory x)"
        by (auto simp: evs)
      obtain q g i where xq: "x = (q, g, i)" by (cases x)
      from Hashed_events_of [OF x(2)] xq obtain md' where
        g: "g = file" and m: "map_of inventory q = Some md'"
        and sz: "md_Size md' = word_of_int (fi_Size i)"
        by auto
      from x(1) xq g have "filepath_Rel env local file = Inr q"
        by (auto simp: local_files_def dest: scan_Rel)
      moreover from loc have "filepath_Rel env local file = Inr p"
        by (auto simp: local_files_def dest: scan_Rel)
      ultimately have "q = p" by simp
      with x(1) xq g loc dist have "i = info"
        by (metis eq_key_imp_eq_value prod.inject)
      with \<open>q = p\<close> m sz rem True show False by simp
    qed
    with True em f rem show ?thesis
      by (simp add: diff_of_def classify_def)
  next
    case False
    from hs loc have "hashes env inventory (p, file, info)"
      by (auto simp: list_all_iff)
    with rem False obtain hash where h: "HashLocal env file = Inr hash"
      by (cases "HashLocal env file") (auto simp: hashes_def)
    have "Hashed file \<in> set (events_of env inventory (p, file, info))"
      using rem False by (simp add: events_of_def)
    with loc have "Hashed file \<in> set evs"
      by (auto simp: evs)
    moreover have "filter (\<lambda>e. fst e = p) (emissions evs) =
                   (if hash = md_ContentHash md then [] else [(p, DiffResultMismatch)])"
      using em f rem False h by (auto simp: diff_of_def classify_def)
    ultimately show ?thesis using False h by simp
  qed
qed

subsection \<open>Skipped files\<close>

lemma walkFn_emitted:
  assumes "walkFn env local skip cb ent rf s = (err, rf', evs, s')"
      and "(p, d) \<in> set (emissions evs)"
  shows "p \<in> fst ` set (scan_entry env local skip ent) \<and> d \<noteq> DiffResultOnlyExistsRemote"
proof -
  obtain f i w where ent: "ent = (f, i, w)" by (cases ent)
  show ?thesis
  proof (cases w)
    case (Some e)
    with assms ent show ?thesis by (simp add: walkFn_def)
  next
    case None
    show ?thesis
    proof (cases "filepath_Rel env local f")
      case (Inl e)
      with assms ent None show ?thesis by (simp add: walkFn_def split: if_splits)
    next
      case (Inr q)
      with assms ent None show ?thesis
        by (auto simp: walkFn_def scan_entry_def
                 split: if_splits option.splits prod.splits sum.splits)
    qed
  qed
qed

lemma Walk_emitted:
  "Walk (walkFn env local skip cb) ents rf s = (err, rf', evs, s') \<Longrightarrow>
   (p, d) \<in> set (emissions evs) \<Longrightarrow>
   p \<in> fst ` set (scan env local skip ents) \<and> d \<noteq> DiffResultOnlyExistsRemote"
proof (induction ents arbitrary: rf s err rf' evs s')
  case Nil
  then show ?case by simp
next
  case (Cons ent ents)
  obtain e1 rf1 evs1 s1 where step: "walkFn env local skip cb ent rf s = (e1, rf1, evs1, s1)"
    by (metis prod_cases4)
  show ?case
  proof (cases e1)
    case (Some e)
    with Cons.prems step have "evs = evs1" by simp
    with Cons.prems(2) walkFn_emitted [OF step, of p d] show ?thesis
      by (auto simp: scan_def)
  next
    case None
    obtain e2 rf2 evs2 s2 where
      rest: "Walk (walkFn env local skip cb) ents rf1 s1 = (e2, rf2, evs2, s2)"
      by (metis prod_cases4)
    with Cons.prems(1) step None have "evs = evs1 @ evs2" by auto
    with Cons.prems(2) have "(p, d) \<in> set (emissions evs1) \<or> (p, d) \<in> set (emissions evs2)"
      by (simp add: emissions_append)
    then show ?thesis
    proof
      assume "(p, d) \<in> set (emissions evs1)"
      with walkFn_emitted [OF step, of p d] show ?thesis by (auto simp: scan_def)
    next
      assume "(p, d) \<in> set (emissions evs2)"
      with Cons.IH [OF rest] show ?thesis by (auto simp: scan_def)
    qed
  qed
qed

lemma walkFn_keys:
  "walkFn env local skip cb ent rf s = (err, rf', evs, s') \<Longrightarrow> set rf' \<subseteq> set rf"
proof -
  assume a: "walkFn env local skip cb ent rf s = (err, rf', evs, s')"
  have d: "set (AList.delete k rf) \<subseteq> set rf" for k
    by (auto simp: AList.delete_eq)
  from a have "rf' = rf \<or> (\<exists>k. rf' = AList.delete k rf)"
    by (auto simp: walkFn_def split: if_splits option.splits prod.splits sum.splits)
  with d show ?thesis by auto
qed

lemma Walk_keys:
  "Walk (walkFn env local skip cb) ents rf s = (err, rf', evs, s') \<Longrightarrow> set rf' \<subseteq> set rf"
proof (induction ents arbitrary: rf s err rf' evs s')
  case Nil
  then show ?case by simp
next
  case (Cons ent ents)
  obtain e1 rf1 evs1 s1 where step: "walkFn env local skip cb ent rf s = (e1, rf1, evs1, s1)"
    by (metis prod_cases4)
  note k = walkFn_keys [OF step]
  show ?case
  proof (cases e1)
    case (Some e)
    with Cons.prems step k show ?thesis by simp
  next
    case None
    obtain e2 rf2 evs2 s2 where
      rest: "Walk (walkFn env local skip cb) ents rf1 s1 = (e2, rf2, evs2, s2)"
      by (metis prod_cases4)
    with Cons.prems(1) step None have "rf' = rf2" by auto
    with Cons.IH [OF rest] k show ?thesis by auto
  qed
qed

lemma range_remote_emitted:
  assumes "range_remote cb ps s = (err, evs, s')" and "(p, d) \<in> set (emissions evs)"
  shows "d = DiffResultOnlyExistsRemote \<and> p \<in> set ps"
proof -
  from assms(2) have "(p, d) \<in>
      set (map (\<lambda>p. (p, DiffResultOnlyExistsRemote)) (take (length (emissions evs)) ps))"
    using range_remote_emissions [OF assms(1)] by simp
  then show ?thesis by (auto dest: in_set_takeD)
qed

lemma WalkDiffs_emitted:
  assumes "(p, d) \<in> set (emissions (fst (snd (WalkDiffs env local remote skip cb s))))"
  shows "(p \<in> fst ` set (local_files env local skip) \<and> d \<noteq> DiffResultOnlyExistsRemote) \<or>
         (d = DiffResultOnlyExistsRemote \<and>
          (\<exists>inventory. remote_inventory env remote = Inr inventory \<and> p \<in> fst ` set inventory))"
proof (cases "remote_inventory env remote")
  case (Inl err)
  with assms show ?thesis
    by (auto simp: WalkDiffs_def remote_inventory_def split: sum.splits)
next
  case (Inr rf)
  then obtain entList where l: "list_remote env remote = Inr entList"
    and b: "build_remoteFiles env remote entList [] = Inr rf"
    by (auto simp: remote_inventory_def split: sum.splits)
  obtain e1 rf1 evs1 s1 where
    w: "Walk (walkFn env local skip cb) (filepath_Walk env local) rf s = (e1, rf1, evs1, s1)"
    by (metis prod_cases4)
  note we = Walk_emitted [OF w, of p d]
  show ?thesis
  proof (cases e1)
    case (Some e)
    with assms l b w we show ?thesis
      by (simp add: WalkDiffs_def local_files_def)
  next
    case None
    obtain e2 evs2 s2 where
      r: "range_remote cb (sort_key (range_rank env) (map fst rf1)) s1 = (e2, evs2, s2)"
      by (metis prod_cases3)
    from assms l b w None r
    have "(p, d) \<in> set (emissions evs1) \<or> (p, d) \<in> set (emissions evs2)"
      by (simp add: WalkDiffs_def emissions_append)
    then show ?thesis
    proof
      assume "(p, d) \<in> set (emissions evs1)"
      with we show ?thesis by (simp add: local_files_def)
    next
      assume "(p, d) \<in> set (emissions evs2)"
      from range_remote_emitted [OF r this] Walk_keys [OF w] Inr show ?thesis
        by auto
    qed
  qed
qed

text \<open>
  C2, as the code has it. When every visit of the walk whose relative path is \<open>p\<close> is
  skipped, the walk never passes \<open>p\<close> to the callback: no \<open>OnlyLocal\<close>, \<open>Mismatch\<close>
  or \<open>Match\<close> is emitted for \<open>p\<close>, and nothing at all is emitted for \<open>p\<close> unless the
  remote inventory has it.
\<close>

theorem skipped_file_not_walked:
  assumes "list_all (\<lambda>(file, info, walkErr).
             filepath_Rel env local file \<noteq> Inr p \<or> skipped skip p info) (filepath_Walk env local)"
      and "(p, d) \<in> set (emissions (fst (snd (WalkDiffs env local remote skip cb s))))"
  shows "d = DiffResultOnlyExistsRemote \<and>
         (\<exists>inventory. remote_inventory env remote = Inr inventory \<and> map_of inventory p \<noteq> None)"
proof -
  have "p \<notin> fst ` set (local_files env local skip)"
  proof
    assume "p \<in> fst ` set (local_files env local skip)"
    then obtain f i where "(p, f, i) \<in> set (local_files env local skip)"
      by auto
    then have "filepath_Rel env local f = Inr p" "\<not> skipped skip p i"
      "(f, i, None) \<in> set (filepath_Walk env local)"
      by (auto simp: local_files_def dest: scan_Rel)
    with assms(1) show False
      by (auto simp: list_all_iff)
  qed
  with WalkDiffs_emitted [OF assms(2)] show ?thesis
    by (auto simp: map_of_eq_None_iff)
qed

subsection \<open>An absent remote folder\<close>

lemma walkFn_empty:
  assumes "walkFn env local skip cb ent [] s = (err, rf', evs, s')"
  shows "rf' = [] \<and>
         emissions evs =
           map (\<lambda>x. (fst x, DiffResultOnlyExistsLocal)) (scan_entry env local skip ent)"
proof -
  obtain f i w where ent: "ent = (f, i, w)" by (cases ent)
  show ?thesis
  proof (cases w)
    case (Some e)
    with assms ent show ?thesis by (auto simp: walkFn_def scan_entry_def)
  next
    case None
    show ?thesis
    proof (cases "filepath_Rel env local f")
      case (Inl e)
      with assms ent None show ?thesis
        by (auto simp: walkFn_def scan_entry_def split: if_splits)
    next
      case (Inr q)
      with assms ent None show ?thesis
        by (auto simp: walkFn_def scan_entry_def split: if_splits prod.splits)
    qed
  qed
qed

lemma Walk_empty:
  "Walk (walkFn env local skip cb) ents [] s = (err, rf', evs, s') \<Longrightarrow>
   rf' = [] \<and>
   snd ` set (emissions evs) \<subseteq> {DiffResultOnlyExistsLocal} \<and>
   (err = None \<longrightarrow>
      emissions evs = map (\<lambda>x. (fst x, DiffResultOnlyExistsLocal)) (scan env local skip ents))"
proof (induction ents arbitrary: s err rf' evs s')
  case Nil
  then show ?case by (simp add: scan_def)
next
  case (Cons ent ents)
  obtain e1 rf1 evs1 s1 where step: "walkFn env local skip cb ent [] s = (e1, rf1, evs1, s1)"
    by (metis prod_cases4)
  note first = walkFn_empty [OF step]
  from first have only: "snd ` set (emissions evs1) \<subseteq> {DiffResultOnlyExistsLocal}"
    by auto
  show ?case
  proof (cases e1)
    case (Some e)
    with Cons.prems step first only show ?thesis
      by auto
  next
    case None
    obtain e2 rf2 evs2 s2 where
      rest: "Walk (walkFn env local skip cb) ents [] s1 = (e2, rf2, evs2, s2)"
      by (metis prod_cases4)
    with Cons.prems step None first have eq: "err = e2" "rf' = rf2" "evs = evs1 @ evs2"
      by auto
    from Cons.IH [OF rest] first only eq show ?thesis
      by (simp add: scan_def emissions_append image_Un)
  qed
qed

text \<open>
  C8, as the code has it. When the listing fails with an error whose text starts with
  \<open>path/not_found/\<close>, \<open>WalkDiffs\<close> creates the remote folder. If that fails, the
  error of the creation is returned and nothing is emitted. If it succeeds, the inventory
  is empty: every call of the callback is an \<open>OnlyLocal\<close>, and a run that returns no
  error has emitted every scanned file as \<open>OnlyLocal\<close>, in walk order. Any other error of
  the listing is returned as it is, and nothing is emitted.
\<close>

theorem absent_namespace:
  assumes "client_ListFolder env remote = Inl err"
  shows "if HasPrefix (Error err) ''path/not_found/'' then
           (case client_CreateFolderV2 env remote of
              Some err' \<Rightarrow> WalkDiffs env local remote skip cb s = (Some err', [], s)
            | None \<Rightarrow>
                remote_inventory env remote = Inr [] \<and>
                snd ` set (emissions (fst (snd (WalkDiffs env local remote skip cb s))))
                  \<subseteq> {DiffResultOnlyExistsLocal} \<and>
                (fst (WalkDiffs env local remote skip cb s) = None \<longrightarrow>
                   emissions (fst (snd (WalkDiffs env local remote skip cb s))) =
                     map (\<lambda>x. (fst x, DiffResultOnlyExistsLocal)) (local_files env local skip)))
         else WalkDiffs env local remote skip cb s = (Some err, [], s)"
proof (cases "HasPrefix (Error err) ''path/not_found/''")
  case False
  with assms show ?thesis by (simp add: WalkDiffs_def list_remote_def)
next
  case True
  show ?thesis
  proof (cases "client_CreateFolderV2 env remote")
    case (Some err')
    with assms True show ?thesis by (simp add: WalkDiffs_def list_remote_def)
  next
    case None
    with assms True have l: "list_remote env remote = Inr []"
      by (simp add: list_remote_def)
    obtain e1 rf1 evs1 s1 where
      w: "Walk (walkFn env local skip cb) (filepath_Walk env local) [] s = (e1, rf1, evs1, s1)"
      by (metis prod_cases4)
    note we = Walk_empty [OF w]
    have run: "WalkDiffs env local remote skip cb s = (e1, evs1, s1)"
      using l w we by (cases e1) (simp_all add: WalkDiffs_def)
    from True None l run we show ?thesis
      by (simp add: remote_inventory_def local_files_def)
  qed
qed

section \<open>Properties of push and pull\<close>

lemma walkFn_state:
  "walkFn env local skip cb ent rf s = (err, rf', evs, s') \<Longrightarrow>
   s' = foldl (\<lambda>st e. snd (cb (fst e) (snd e) st)) s (emissions evs)"
  by (auto simp: walkFn_def split: prod.splits option.splits if_splits sum.splits)

lemma Walk_state:
  "Walk (walkFn env local skip cb) ents rf s = (err, rf', evs, s') \<Longrightarrow>
   s' = foldl (\<lambda>st e. snd (cb (fst e) (snd e) st)) s (emissions evs)"
proof (induction ents arbitrary: rf s err rf' evs s')
  case Nil
  then show ?case by simp
next
  case (Cons ent ents)
  obtain e1 rf1 evs1 s1 where step: "walkFn env local skip cb ent rf s = (e1, rf1, evs1, s1)"
    by (metis prod_cases4)
  note first = walkFn_state [OF step]
  show ?case
  proof (cases e1)
    case (Some e)
    with Cons.prems step first show ?thesis by auto
  next
    case None
    obtain e2 rf2 evs2 s2 where
      rest: "Walk (walkFn env local skip cb) ents rf1 s1 = (e2, rf2, evs2, s2)"
      by (metis prod_cases4)
    with Cons.prems step None have eq: "evs = evs1 @ evs2" "s' = s2" by auto
    from Cons.IH [OF rest] first eq show ?thesis
      by (simp add: emissions_append)
  qed
qed

lemma range_remote_state:
  "range_remote cb ps s = (err, evs, s') \<Longrightarrow>
   s' = foldl (\<lambda>st e. snd (cb (fst e) (snd e) st)) s (emissions evs)"
proof (induction ps arbitrary: s err evs s')
  case Nil
  then show ?case by simp
next
  case (Cons p ps)
  obtain e1 s1 where c: "cb p DiffResultOnlyExistsRemote s = (e1, s1)"
    by (metis prod.exhaust)
  show ?case
  proof (cases e1)
    case (Some e)
    with Cons.prems c show ?thesis by auto
  next
    case None
    obtain e2 evs2 s2 where r: "range_remote cb ps s1 = (e2, evs2, s2)"
      by (metis prod_cases3)
    from Cons.IH [OF r] Cons.prems c None r show ?thesis by auto
  qed
qed

lemma WalkDiffs_state:
  assumes "WalkDiffs env local remote skip cb s = (err, evs, s')"
  shows "s' = foldl (\<lambda>st e. snd (cb (fst e) (snd e) st)) s (emissions evs)"
proof (cases "list_remote env remote")
  case (Inl e)
  with assms show ?thesis by (auto simp: WalkDiffs_def)
next
  case (Inr entList)
  show ?thesis
  proof (cases "build_remoteFiles env remote entList []")
    case (Inl e)
    with Inr assms show ?thesis by (auto simp: WalkDiffs_def)
  next
    case rf: (Inr remoteFiles)
    obtain e1 rf1 evs1 s1 where
      w: "Walk (walkFn env local skip cb) (filepath_Walk env local) remoteFiles s = (e1, rf1, evs1, s1)"
      by (metis prod_cases4)
    note a = Walk_state [OF w]
    show ?thesis
    proof (cases e1)
      case (Some e)
      with Inr rf w a assms show ?thesis by (auto simp: WalkDiffs_def)
    next
      case None
      obtain e2 evs2 s2 where
        r: "range_remote cb (sort_key (range_rank env) (map fst rf1)) s1 = (e2, evs2, s2)"
        by (metis prod_cases3)
      from range_remote_state [OF r] Inr rf w a None r assms show ?thesis
        by (auto simp: WalkDiffs_def emissions_append)
    qed
  qed
qed

lemma foldl_cb_actions:
  assumes "\<And>e st. snd (cb (fst e) (snd e) st) = snd (perform sys s (policy e) st)"
  shows "foldl (\<lambda>st e. snd (cb (fst e) (snd e) st)) st ems = run_actions sys s (map policy ems) st"
  by (induction ems arbitrary: st) (simp_all add: run_actions_def assms)

lemma Upload_cb_policy:
  "Upload_cb sys s folder remoteFolder (fst e) (snd e) st =
   perform sys s (push_policy sys folder remoteFolder e) st"
  by (cases e; cases "snd e") (simp_all add: Upload_cb_def)

lemma Pull_cb_policy:
  "Pull_cb sys s folder remoteFolder (fst e) (snd e) st =
   perform sys s (pull_policy sys folder remoteFolder e) st"
  by (cases e; cases "snd e") (simp_all add: Pull_cb_def)

lemma overwriting_simps:
  "snapshot (overwriting sys) = snapshot sys"
  "os_Stat (overwriting sys) = os_Stat sys"
  "client_UploadSessionStart (overwriting sys) = client_UploadSessionStart sys"
  "client_UploadSessionAppendV2 (overwriting sys) = client_UploadSessionAppendV2 sys"
  "client_Upload (overwriting sys) commitInfo =
     client_Upload sys (commitInfo\<lparr>ci_Mode := ''overwrite''\<rparr>)"
  "client_UploadSessionFinish (overwriting sys) sessionId written commitInfo =
     client_UploadSessionFinish sys sessionId written (commitInfo\<lparr>ci_Mode := ''overwrite''\<rparr>)"
  by (simp_all add: overwriting_def)

lemma append_chunks_overwriting:
  "append_chunks (overwriting sys) sessionId data sz written st =
   append_chunks sys sessionId data sz written st"
proof (induction sys sessionId data sz written st rule: append_chunks.induct)
  case (1 sys sessionId data sz written st)
  show ?case
  proof (cases "sz - written > chunkSize")
    case False
    then show ?thesis by (simp add: append_chunks.simps [of _ _ _ sz written])
  next
    case True
    obtain e1 st1 where
      a: "client_UploadSessionAppendV2 sys sessionId written (limited data written) st = (e1, st1)"
      by (metis prod.exhaust)
    show ?thesis
    proof (cases e1)
      case (Some e)
      with True a show ?thesis
        by (simp add: append_chunks.simps [of _ _ _ sz written] overwriting_simps)
    next
      case None
      from "1" True a None
      have "append_chunks (overwriting sys) sessionId data sz (written + chunkSize) st1 =
            append_chunks sys sessionId data sz (written + chunkSize) st1"
        by simp
      with True a None show ?thesis
        by (simp add: append_chunks.simps [of _ _ _ sz written] overwriting_simps)
    qed
  qed
qed

lemma Dropbox_Upload_overwriting:
  "Dropbox_Upload (overwriting sys) local remote st = Dropbox_Upload sys local remote st"
proof (cases "os_Open (snapshot sys st) local")
  case (Inl err)
  then show ?thesis by (simp add: Dropbox_Upload_def overwriting_simps)
next
  case f: (Inr f)
  show ?thesis
  proof (cases "os_Stat sys local st")
    case (Inl err)
    with f show ?thesis by (simp add: Dropbox_Upload_def overwriting_simps)
  next
    case info: (Inr info)
    show ?thesis
    proof (cases "fi_Size info > chunkSize")
      case False
      with f info show ?thesis by (simp add: Dropbox_Upload_def overwriting_simps)
    next
      case True
      obtain r st1 where
        start: "client_UploadSessionStart sys (limited (content f) 0) st = (r, st1)"
        by (metis prod.exhaust)
      show ?thesis
      proof (cases r)
        case (Inl err)
        with f info True start show ?thesis
          by (simp add: Dropbox_Upload_def overwriting_simps)
      next
        case (Inr sessionId)
        obtain e written st2 where
          app: "append_chunks sys sessionId (content f) (fi_Size info) chunkSize st1 =
                  (e, written, st2)"
          by (metis prod_cases3)
        with f info True start Inr show ?thesis
          by (cases e)
             (simp_all add: Dropbox_Upload_def overwriting_simps append_chunks_overwriting)
      qed
    qed
  qed
qed

lemma Dropbox_WalkDiffs_run:
  "WalkDiffs (snapshot sys st) local remote None cb st = (err, evs, st') \<Longrightarrow>
   svc_WalkDiffs (Dropbox sys) local remote cb st = (err, st')"
  by (simp add: Dropbox_def)

lemma Dropbox_Download_ok:
  assumes "Dropbox_Download sys localFile remoteFile st0 = (None, st4)"
  shows "\<exists>result st1 st2 st3.
           client_Download sys remoteFile st0 = (Inr result, st1) \<and>
           os_MkdirAll sys (path_Dir sys localFile) 509 st1 = (None, st2) \<and>
           os_Create sys localFile st2 = (None, st3) \<and>
           io_Copy sys localFile result st3 = (None, st4)"
proof -
  obtain r st1 where d: "client_Download sys remoteFile st0 = (r, st1)"
    by (metis prod.exhaust)
  with assms obtain result where r: "r = Inr result"
    by (cases r) (simp_all add: Dropbox_Download_def)
  obtain e2 st2 where m: "os_MkdirAll sys (path_Dir sys localFile) 509 st1 = (e2, st2)"
    by (metis prod.exhaust)
  with assms d r have e2: "e2 = None"
    by (cases e2) (simp_all add: Dropbox_Download_def)
  obtain e3 st3 where c: "os_Create sys localFile st2 = (e3, st3)"
    by (metis prod.exhaust)
  with assms d r m e2 have e3: "e3 = None"
    by (cases e3) (simp_all add: Dropbox_Download_def)
  from assms d r m e2 c e3 have "io_Copy sys localFile result st3 = (None, st4)"
    by (simp add: Dropbox_Download_def)
  with d r m e2 c e3 show ?thesis by blast
qed

text \<open>
  C6. When the project folder exists, \<open>ProjectRepository.Upload\<close> on the Dropbox service
  returns what the walk returns, and its effect is that of one action for each call of
  the callback, in the order of the calls: none for \<open>Match\<close>, an upload of the local
  file to the path joined to the remote folder for \<open>Mismatch\<close> and \<open>OnlyLocal\<close>, a
  delete of that remote path for \<open>OnlyRemote\<close>. The upload always commits in mode
  \<open>overwrite\<close>: forcing that mode on every commit changes nothing.
\<close>

theorem push_actions:
  assumes "os_Stat sys (Path sys fr name) st = Inr info"
      and "WalkDiffs (snapshot sys st) (Path sys fr name) (''/'' @ name) None
             (Upload_cb sys (Dropbox sys) (Path sys fr name) (''/'' @ name)) st = (err, evs, st')"
  shows "ProjectRepository_Upload sys fr name (Dropbox sys) st =
           (err, run_actions sys (Dropbox sys)
                   (map (push_policy sys (Path sys fr name) (''/'' @ name)) (emissions evs)) st) \<and>
         svc_Upload (Dropbox (overwriting sys)) = svc_Upload (Dropbox sys)"
proof
  let ?folder = "Path sys fr name" and ?remoteFolder = "''/'' @ name"
  have "st' = foldl (\<lambda>st e. snd (Upload_cb sys (Dropbox sys) ?folder ?remoteFolder (fst e) (snd e) st))
                st (emissions evs)"
    by (rule WalkDiffs_state [OF assms(2)])
  also have "\<dots> = run_actions sys (Dropbox sys)
                     (map (push_policy sys ?folder ?remoteFolder) (emissions evs)) st"
    by (rule foldl_cb_actions) (simp add: Upload_cb_policy)
  finally have "st' = run_actions sys (Dropbox sys)
                     (map (push_policy sys ?folder ?remoteFolder) (emissions evs)) st" .
  with assms(1) Dropbox_WalkDiffs_run [OF assms(2)]
  show "ProjectRepository_Upload sys fr name (Dropbox sys) st =
           (err, run_actions sys (Dropbox sys)
                   (map (push_policy sys ?folder ?remoteFolder) (emissions evs)) st)"
    by (simp add: ProjectRepository_Upload_def Let_def)
  show "svc_Upload (Dropbox (overwriting sys)) = svc_Upload (Dropbox sys)"
    by (simp add: Dropbox_def) (intro ext, rule Dropbox_Upload_overwriting)
qed

text \<open>
  C7. \<open>ProjectRepository.Pull\<close> on the Dropbox service, after creating the project
  folder, returns what the walk returns, and its effect is that of one action for each
  call of the callback, in the order of the calls: none for \<open>Match\<close>, a download of
  the remote path to the local path for \<open>Mismatch\<close> and \<open>OnlyRemote\<close>, the removal
  of the local path for \<open>OnlyLocal\<close>. A download that returns no error has fetched the
  remote file, then created the parent directories of the local path with
  \<^verbatim>\<open>os.MkdirAll\<close>, then created the file, then copied the bytes into it.
\<close>

theorem pull_actions:
  assumes "os_MkdirAll sys (Path sys fr name) projectFolderPerm st = (err0, st1)"
      and "WalkDiffs (snapshot sys st1) (Path sys fr name) (''/'' @ name) None
             (Pull_cb sys (Dropbox sys) (Path sys fr name) (''/'' @ name)) st1 = (err, evs, st')"
      and "svc_Download (Dropbox sys) localFile remoteFile st0 = (None, st4)"
  shows "ProjectRepository_Pull sys fr name (Dropbox sys) st =
           (err, run_actions sys (Dropbox sys)
                   (map (pull_policy sys (Path sys fr name) (''/'' @ name)) (emissions evs)) st1) \<and>
         (\<exists>result s1 s2 s3.
            client_Download sys remoteFile st0 = (Inr result, s1) \<and>
            os_MkdirAll sys (path_Dir sys localFile) 509 s1 = (None, s2) \<and>
            os_Create sys localFile s2 = (None, s3) \<and>
            io_Copy sys localFile result s3 = (None, st4))"
proof
  let ?folder = "Path sys fr name" and ?remoteFolder = "''/'' @ name"
  have "st' = foldl (\<lambda>st e. snd (Pull_cb sys (Dropbox sys) ?folder ?remoteFolder (fst e) (snd e) st))
                st1 (emissions evs)"
    by (rule WalkDiffs_state [OF assms(2)])
  also have "\<dots> = run_actions sys (Dropbox sys)
                     (map (pull_policy sys ?folder ?remoteFolder) (emissions evs)) st1"
    by (rule foldl_cb_actions) (simp add: Pull_cb_policy)
  finally have "st' = run_actions sys (Dropbox sys)
                     (map (pull_policy sys ?folder ?remoteFolder) (emissions evs)) st1" .
  with assms(1) Dropbox_WalkDiffs_run [OF assms(2)]
  show "ProjectRepository_Pull sys fr name (Dropbox sys) st =
           (err, run_actions sys (Dropbox sys)
                   (map (pull_policy sys ?folder ?remoteFolder) (emissions evs)) st1)"
    by (simp add: ProjectRepository_Pull_def Let_def)
  from assms(3) have "Dropbox_Download sys localFile remoteFile st0 = (None, st4)"
    by (simp add: Dropbox_def)
  then show "\<exists>result s1 s2 s3.
            client_Download sys remoteFile st0 = (Inr result, s1) \<and>
            os_MkdirAll sys (path_Dir sys localFile) 509 s1 = (None, s2) \<and>
            os_Create sys localFile s2 = (None, s3) \<and>
            io_Copy sys localFile result s3 = (None, st4)"
    by (rule Dropbox_Download_ok)
qed

section \<open>Properties of ContentHash and of the callback's errors\<close>

text \<open>The test vector \<open>abc\<close> of FIPS 180-4.\<close>

lemma sha256_abc:
  "hex (sha256 [0x61, 0x62, 0x63]) =
     ''ba7816bf8f01cfea414140de5dae2223b00361a396177a9cb410ff61f20015ad''"
  by code_simp

text \<open>
  With a reader that fills the buffer on every call but the last, \<open>ContentHash\<close> is the
  block hash of the whole content: the SHA-256 of the concatenated SHA-256 digests of
  its blocks of \<open>hashBlockSize\<close> bytes.
\<close>

lemma ContentHash_loop_full_reads:
  assumes "list_all (\<lambda>b. int (length b) = hashBlockSize) (butlast blocks)"
      and "list_all (\<lambda>b. b \<noteq> []) blocks"
  shows "ContentHash_loop hashBlockSize None (map (\<lambda>b. (b, None)) blocks) acc =
           Inr (hex (sha256 (acc @ concat (map sha256 blocks))))"
  using assms
proof (induction blocks arbitrary: acc)
  case Nil
  then show ?case by simp
next
  case (Cons b blocks)
  from Cons.prems(2) have w: "write_block acc b = acc @ sha256 b"
    by (simp add: write_block_def)
  show ?case
  proof (cases blocks)
    case Nil
    with w show ?thesis by simp
  next
    case (Cons c cs)
    with Cons.prems have full: "int (length b) = hashBlockSize"
      and rest: "list_all (\<lambda>b. int (length b) = hashBlockSize) (butlast blocks)"
                "list_all (\<lambda>b. b \<noteq> []) blocks"
      by simp_all
    from Cons.IH [OF rest, of "acc @ sha256 b"] w full show ?thesis
      by simp
  qed
qed

lemma ContentHash_full_reads:
  assumes "list_all (\<lambda>b. int (length b) = hashBlockSize) (butlast blocks)"
      and "list_all (\<lambda>b. b \<noteq> []) blocks"
  shows "ContentHash (map (\<lambda>b. (b, None)) blocks) = Inr (hex (sha256 (concat (map sha256 blocks)))) \<and>
         content (map (\<lambda>b. (b, None)) blocks) = concat blocks"
proof
  show "content (map (\<lambda>b. (b, None)) blocks) = concat blocks"
    by (induction blocks) simp_all
  show "ContentHash (map (\<lambda>b. (b, None)) blocks) = Inr (hex (sha256 (concat (map sha256 blocks))))"
  proof (cases blocks)
    case Nil
    then show ?thesis by (simp add: ContentHash_def Read_def write_block_def)
  next
    case (Cons b bs)
    with assms(2) have w: "write_block [] b = sha256 b"
      by (simp add: write_block_def)
    show ?thesis
    proof (cases bs)
      case Nil
      with Cons w show ?thesis by (simp add: ContentHash_def Read_def)
    next
      case (Cons c cs)
      with \<open>blocks = b # bs\<close> assms have full: "int (length b) = hashBlockSize"
        and rest: "list_all (\<lambda>b. int (length b) = hashBlockSize) (butlast bs)"
                  "list_all (\<lambda>b. b \<noteq> []) bs"
        by simp_all
      from ContentHash_loop_full_reads [OF rest, of "sha256 b"] w full \<open>blocks = b # bs\<close>
      show ?thesis
        by (simp add: ContentHash_def Read_def)
    qed
  qed
qed

text \<open>
  Where the callback's error is returned at once (an \<open>OnlyLocal\<close>, a \<open>Mismatch\<close> of
  sizes, an \<open>OnlyRemote\<close>), and where it is lost (a \<open>Mismatch\<close> of hashes).
\<close>

lemma callback_error_returned:
  assumes "filepath_Rel env local file = Inr p" and "\<not> fi_IsDir info" and "\<not> skipped skip p info"
  shows "map_of rf p = None \<Longrightarrow> cb p DiffResultOnlyExistsLocal s = (Some e, s1) \<Longrightarrow>
           walkFn env local skip cb (file, info, None) rf s =
             (Some e, rf, [Emitted p DiffResultOnlyExistsLocal], s1)"
    and "map_of rf p = Some md \<Longrightarrow> md_Size md \<noteq> word_of_int (fi_Size info) \<Longrightarrow>
         cb p DiffResultMismatch s = (Some e, s1) \<Longrightarrow>
           walkFn env local skip cb (file, info, None) rf s =
             (Some e, rf, [Emitted p DiffResultMismatch], s1)"
    and "cb q DiffResultOnlyExistsRemote s = (Some e, s1) \<Longrightarrow>
           range_remote cb (q # ps) s = (Some e, [Emitted q DiffResultOnlyExistsRemote], s1)"
  using assms by (simp_all add: walkFn_def)

lemma callback_error_lost:
  assumes "filepath_Rel env local file = Inr p" and "\<not> fi_IsDir info" and "\<not> skipped skip p info"
      and "map_of rf p = Some md" and "md_Size md = word_of_int (fi_Size info)"
      and "HashLocal env file = Inr hash" and "md_ContentHash md \<noteq> hash"
      and "cb p DiffResultMismatch s = (Some e, s1)"
  shows "walkFn env local skip cb (file, info, None) rf s =
           (None, AList.delete p rf, [Hashed file, Emitted p DiffResultMismatch], s1)"
  using assms by (simp add: walkFn_def)

section \<open>The examples evaluated\<close>

lemma tree_run: "WalkDiffs tree_env ''/home/p'' ''/p'' None log_cb [] = (None, tree_events, tree_calls)"
  by code_simp

lemma tree_distinct: "distinct (map fst (local_files tree_env ''/home/p'' None))"
  by code_simp

lemma tree_remote: "remote_inventory tree_env ''/p'' = Inr tree_inventory"
  by code_simp

theorem WalkDiffs_classifies_once_witness:
  "WalkDiffs tree_env ''/home/p'' ''/p'' None log_cb [] = (None, tree_events, tree_calls) \<and>
   distinct (map fst (local_files tree_env ''/home/p'' None)) \<and>
   remote_inventory tree_env ''/p'' = Inr tree_inventory \<and>
   filter (\<lambda>e. fst e = ''c.txt'') (emissions tree_events) = [(''c.txt'', DiffResultOnlyExistsRemote)] \<and>
   distinct (map fst (emissions tree_events))"
proof -
  have d: "diff_of tree_env (local_files tree_env ''/home/p'' None) tree_inventory ''c.txt'' =
             Some DiffResultOnlyExistsRemote"
    by code_simp
  note t = WalkDiffs_classifies_once [OF tree_run tree_distinct tree_remote, of "''c.txt''"]
  from t have "filter (\<lambda>e. fst e = ''c.txt'') (emissions tree_events) =
                 [(''c.txt'', DiffResultOnlyExistsRemote)]"
    by (simp only: d option.case DiffResult.case)
  with t show ?thesis
    by (intro conjI tree_run tree_distinct tree_remote) simp_all
qed

theorem WalkDiffs_both_sides_witness:
  "WalkDiffs tree_env ''/home/p'' ''/p'' None log_cb [] = (None, tree_events, tree_calls) \<and>
   distinct (map fst (local_files tree_env ''/home/p'' None)) \<and>
   remote_inventory tree_env ''/p'' = Inr tree_inventory \<and>
   (''m.txt'', ''/home/p/m.txt'', regular 1) \<in> set (local_files tree_env ''/home/p'' None) \<and>
   map_of tree_inventory ''m.txt'' =
     Some \<lparr>md_PathDisplay = ''/p/m.txt'', md_Size = 1, md_ContentHash = ''00''\<rparr> \<and>
   Hashed ''/home/p/m.txt'' \<in> set tree_events \<and>
   (\<exists>hash. HashLocal tree_env ''/home/p/m.txt'' = Inr hash \<and>
      filter (\<lambda>e. fst e = ''m.txt'') (emissions tree_events) =
        (if hash = ''00'' then [] else [(''m.txt'', DiffResultMismatch)]))"
proof -
  have loc: "(''m.txt'', ''/home/p/m.txt'', regular 1) \<in> set (local_files tree_env ''/home/p'' None)"
    by code_simp
  have rem: "map_of tree_inventory ''m.txt'' =
     Some \<lparr>md_PathDisplay = ''/p/m.txt'', md_Size = 1, md_ContentHash = ''00''\<rparr>"
    by code_simp
  have sz: "md_Size \<lparr>md_PathDisplay = ''/p/m.txt'', md_Size = 1, md_ContentHash = ''00''\<rparr> =
              word_of_int (fi_Size (regular 1))"
    by (simp add: regular_def)
  from WalkDiffs_both_sides [OF tree_run tree_distinct tree_remote loc rem] sz
  have "Hashed ''/home/p/m.txt'' \<in> set tree_events \<and>
   (\<exists>hash. HashLocal tree_env ''/home/p/m.txt'' = Inr hash \<and>
      filter (\<lambda>e. fst e = ''m.txt'') (emissions tree_events) =
        (if hash = ''00'' then [] else [(''m.txt'', DiffResultMismatch)]))"
    by simp
  then show ?thesis
    by (intro conjI tree_run tree_distinct tree_remote loc rem) simp_all
qed

text \<open>
  A skipped local file whose relative path the remote inventory has is emitted after
  the walk as \<open>OnlyRemote\<close>: the skip leaves its entry in \<open>remoteFiles\<close>.
\<close>

theorem skipped_file_emitted:
  "skipped (Some skip_bm) ''b.txt'' (regular 1) \<and>
   emissions (fst (snd (WalkDiffs tree_env ''/home/p'' ''/p'' (Some skip_bm) log_cb []))) =
     [(''a.txt'', DiffResultOnlyExistsLocal), (''x.txt'', DiffResultMismatch),
      (''b.txt'', DiffResultOnlyExistsRemote), (''c.txt'', DiffResultOnlyExistsRemote),
      (''m.txt'', DiffResultOnlyExistsRemote)]"
  by code_simp

theorem skipped_file_not_walked_witness:
  "list_all (\<lambda>(file, info, walkErr).
      filepath_Rel tree_env ''/home/p'' file \<noteq> Inr ''b.txt'' \<or> skipped (Some skip_bm) ''b.txt'' info)
     (filepath_Walk tree_env ''/home/p'') \<and>
   (''b.txt'', DiffResultOnlyExistsRemote) \<in>
     set (emissions (fst (snd (WalkDiffs tree_env ''/home/p'' ''/p'' (Some skip_bm) log_cb [])))) \<and>
   (\<exists>inventory. remote_inventory tree_env ''/p'' = Inr inventory \<and> map_of inventory ''b.txt'' \<noteq> None)"
proof -
  have h1: "list_all (\<lambda>(file, info, walkErr).
      filepath_Rel tree_env ''/home/p'' file \<noteq> Inr ''b.txt'' \<or> skipped (Some skip_bm) ''b.txt'' info)
     (filepath_Walk tree_env ''/home/p'')"
    by code_simp
  have h2: "(''b.txt'', DiffResultOnlyExistsRemote) \<in>
     set (emissions (fst (snd (WalkDiffs tree_env ''/home/p'' ''/p'' (Some skip_bm) log_cb []))))"
    by code_simp
  from skipped_file_not_walked [OF h1 h2] h1 h2 show ?thesis
    by blast
qed

text \<open>
  With the remote folder absent and its creation refused, the walk fails with the error of
  the creation.
\<close>

theorem create_failure_stops_walk:
  "client_ListFolder denied_env ''/p'' = Inl (Err ''path/not_found/...'') \<and>
   WalkDiffs denied_env ''/home/p'' ''/p'' None log_cb [] =
     (Some (Err ''path/no_write_permission/...''), [], [])"
  by code_simp

theorem absent_namespace_witness:
  "client_ListFolder absent_env ''/p'' = Inl (Err ''path/not_found/...'') \<and>
   remote_inventory absent_env ''/p'' = Inr [] \<and>
   emissions (fst (snd (WalkDiffs absent_env ''/home/p'' ''/p'' None log_cb []))) =
     map (\<lambda>x. (fst x, DiffResultOnlyExistsLocal)) (local_files absent_env ''/home/p'' None)"
proof -
  have h: "client_ListFolder absent_env ''/p'' = Inl (Err ''path/not_found/...'')"
    by code_simp
  have p: "HasPrefix (Error (Err ''path/not_found/...'')) ''path/not_found/''"
    by code_simp
  have c: "client_CreateFolderV2 absent_env ''/p'' = None"
    by code_simp
  have r: "fst (WalkDiffs absent_env ''/home/p'' ''/p'' None log_cb []) = None"
    by code_simp
  from absent_namespace [OF h, of "''/home/p''" None log_cb "[]"] p c r h show ?thesis
    by simp
qed

theorem push_actions_witness:
  "os_Stat scenario_sys (Path scenario_sys home ''p'') [] = Inr directory \<and>
   WalkDiffs (snapshot scenario_sys []) (Path scenario_sys home ''p'') (''/'' @ ''p'') None
     (Upload_cb scenario_sys (Dropbox scenario_sys) (Path scenario_sys home ''p'') (''/'' @ ''p'')) [] =
     (None,
      [Emitted ''a.txt'' DiffResultOnlyExistsLocal, Hashed ''/home/p/b.txt'',
       Emitted ''c.txt'' DiffResultOnlyExistsRemote],
      [CallUpload \<lparr>ci_Path = ''/p/a.txt'', ci_Mode = ''overwrite''\<rparr> [0x61],
       CallDeleteV2 ''/p/c.txt'']) \<and>
   ProjectRepository_Upload scenario_sys home ''p'' (Dropbox scenario_sys) [] =
     (None,
      [CallUpload \<lparr>ci_Path = ''/p/a.txt'', ci_Mode = ''overwrite''\<rparr> [0x61],
       CallDeleteV2 ''/p/c.txt''])"
proof -
  have h1: "os_Stat scenario_sys (Path scenario_sys home ''p'') [] = Inr directory"
    by code_simp
  have h2: "WalkDiffs (snapshot scenario_sys []) (Path scenario_sys home ''p'') (''/'' @ ''p'') None
     (Upload_cb scenario_sys (Dropbox scenario_sys) (Path scenario_sys home ''p'') (''/'' @ ''p'')) [] =
     (None,
      [Emitted ''a.txt'' DiffResultOnlyExistsLocal, Hashed ''/home/p/b.txt'',
       Emitted ''c.txt'' DiffResultOnlyExistsRemote],
      [CallUpload \<lparr>ci_Path = ''/p/a.txt'', ci_Mode = ''overwrite''\<rparr> [0x61],
       CallDeleteV2 ''/p/c.txt''])"
    by code_simp
  have r: "run_actions scenario_sys (Dropbox scenario_sys)
             (map (push_policy scenario_sys (Path scenario_sys home ''p'') (''/'' @ ''p''))
                (emissions [Emitted ''a.txt'' DiffResultOnlyExistsLocal, Hashed ''/home/p/b.txt'',
                   Emitted ''c.txt'' DiffResultOnlyExistsRemote])) [] =
           [CallUpload \<lparr>ci_Path = ''/p/a.txt'', ci_Mode = ''overwrite''\<rparr> [0x61],
            CallDeleteV2 ''/p/c.txt'']"
    by code_simp
  from push_actions [OF h1 h2]
  have "ProjectRepository_Upload scenario_sys home ''p'' (Dropbox scenario_sys) [] =
     (None,
      [CallUpload \<lparr>ci_Path = ''/p/a.txt'', ci_Mode = ''overwrite''\<rparr> [0x61],
       CallDeleteV2 ''/p/c.txt''])"
    by (simp only: r)
  then show ?thesis
    by (intro conjI h1 h2)
qed

theorem pull_actions_witness:
  "os_MkdirAll scenario_sys (Path scenario_sys home ''p'') projectFolderPerm [] =
     (None, [CallMkdirAll ''/home/p'' 509]) \<and>
   WalkDiffs (snapshot scenario_sys [CallMkdirAll ''/home/p'' 509])
     (Path scenario_sys home ''p'') (''/'' @ ''p'') None
     (Pull_cb scenario_sys (Dropbox scenario_sys) (Path scenario_sys home ''p'') (''/'' @ ''p''))
     [CallMkdirAll ''/home/p'' 509] =
     (None,
      [Emitted ''a.txt'' DiffResultOnlyExistsLocal, Hashed ''/home/p/b.txt'',
       Emitted ''c.txt'' DiffResultOnlyExistsRemote],
      [CallMkdirAll ''/home/p'' 509, CallRemoveAll ''/home/p/a.txt'', CallDownload ''/p/c.txt'',
       CallMkdirAll ''/home/p'' 509, CallCreate ''/home/p/c.txt'',
       CallCopy ''/home/p/c.txt'' [0x63, 0x63, 0x63]]) \<and>
   svc_Download (Dropbox scenario_sys) ''/home/p/c.txt'' ''/p/c.txt'' [] =
     (None,
      [CallDownload ''/p/c.txt'', CallMkdirAll ''/home/p'' 509, CallCreate ''/home/p/c.txt'',
       CallCopy ''/home/p/c.txt'' [0x63, 0x63, 0x63]]) \<and>
   ProjectRepository_Pull scenario_sys home ''p'' (Dropbox scenario_sys) [] =
     (None,
      [CallMkdirAll ''/home/p'' 509, CallRemoveAll ''/home/p/a.txt'', CallDownload ''/p/c.txt'',
       CallMkdirAll ''/home/p'' 509, CallCreate ''/home/p/c.txt'',
       CallCopy ''/home/p/c.txt'' [0x63, 0x63, 0x63]]) \<and>
   (\<exists>result s1 s2 s3.
      client_Download scenario_sys ''/p/c.txt'' [] = (Inr result, s1) \<and>
      os_MkdirAll scenario_sys (path_Dir scenario_sys ''/home/p/c.txt'') 509 s1 = (None, s2) \<and>
      os_Create scenario_sys ''/home/p/c.txt'' s2 = (None, s3) \<and>
      io_Copy scenario_sys ''/home/p/c.txt'' result s3 =
        (None,
         [CallDownload ''/p/c.txt'', CallMkdirAll ''/home/p'' 509, CallCreate ''/home/p/c.txt'',
          CallCopy ''/home/p/c.txt'' [0x63, 0x63, 0x63]]))"
proof -
  have h1: "os_MkdirAll scenario_sys (Path scenario_sys home ''p'') projectFolderPerm [] =
     (None, [CallMkdirAll ''/home/p'' 509])"
    by code_simp
  have h2: "WalkDiffs (snapshot scenario_sys [CallMkdirAll ''/home/p'' 509])
     (Path scenario_sys home ''p'') (''/'' @ ''p'') None
     (Pull_cb scenario_sys (Dropbox scenario_sys) (Path scenario_sys home ''p'') (''/'' @ ''p''))
     [CallMkdirAll ''/home/p'' 509] =
     (None,
      [Emitted ''a.txt'' DiffResultOnlyExistsLocal, Hashed ''/home/p/b.txt'',
       Emitted ''c.txt'' DiffResultOnlyExistsRemote],
      [CallMkdirAll ''/home/p'' 509, CallRemoveAll ''/home/p/a.txt'', CallDownload ''/p/c.txt'',
       CallMkdirAll ''/home/p'' 509, CallCreate ''/home/p/c.txt'',
       CallCopy ''/home/p/c.txt'' [0x63, 0x63, 0x63]])"
    by code_simp
  have h3: "svc_Download (Dropbox scenario_sys) ''/home/p/c.txt'' ''/p/c.txt'' [] =
     (None,
      [CallDownload ''/p/c.txt'', CallMkdirAll ''/home/p'' 509, CallCreate ''/home/p/c.txt'',
       CallCopy ''/home/p/c.txt'' [0x63, 0x63, 0x63]])"
    by code_simp
  have r: "run_actions scenario_sys (Dropbox scenario_sys)
             (map (pull_policy scenario_sys (Path scenario_sys home ''p'') (''/'' @ ''p''))
                (emissions [Emitted ''a.txt'' DiffResultOnlyExistsLocal, Hashed ''/home/p/b.txt'',
                   Emitted ''c.txt'' DiffResultOnlyExistsRemote]))
             [CallMkdirAll ''/home/p'' 509] =
      [CallMkdirAll ''/home/p'' 509, CallRemoveAll ''/home/p/a.txt'', CallDownload ''/p/c.txt'',
       CallMkdirAll ''/home/p'' 509, CallCreate ''/home/p/c.txt'',
       CallCopy ''/home/p/c.txt'' [0x63, 0x63, 0x63]]"
    by code_simp
  note t = pull_actions [OF h1 h2 h3]
  from t have a: "ProjectRepository_Pull scenario_sys home ''p'' (Dropbox scenario_sys) [] =
     (None,
      [CallMkdirAll ''/home/p'' 509, CallRemoveAll ''/home/p/a.txt'', CallDownload ''/p/c.txt'',
       CallMkdirAll ''/home/p'' 509, CallCreate ''/home/p/c.txt'',
       CallCopy ''/home/p/c.txt'' [0x63, 0x63, 0x63]])"
    by (simp only: r)
  from t have b: "\<exists>result s1 s2 s3.
      client_Download scenario_sys ''/p/c.txt'' [] = (Inr result, s1) \<and>
      os_MkdirAll scenario_sys (path_Dir scenario_sys ''/home/p/c.txt'') 509 s1 = (None, s2) \<and>
      os_Create scenario_sys ''/home/p/c.txt'' s2 = (None, s3) \<and>
      io_Copy scenario_sys ''/home/p/c.txt'' result s3 =
        (None,
         [CallDownload ''/p/c.txt'', CallMkdirAll ''/home/p'' 509, CallCreate ''/home/p/c.txt'',
          CallCopy ''/home/p/c.txt'' [0x63, 0x63, 0x63]])"
    by (rule conjunct2)
  show ?thesis
    by (intro conjI h1 h2 h3 a b)
qed

lemma ContentHash_after_short_read:
  assumes "int (length bs) \<noteq> hashBlockSize"
  shows "ContentHash ((bs, None) # r) = ContentHash [(bs, None)]"
  using assms by (cases r) (auto simp: ContentHash_def Read_def)

text \<open>
  C1 at a reader that returns less than the buffer before the end of the stream. The two
  readers deliver the same two bytes, the first in one call of \<open>Read\<close>, the second
  in two; \<open>ContentHash\<close> answers the fingerprint of both bytes for the first and the
  fingerprint of the first byte alone for the second.
\<close>

theorem ContentHash_short_read:
  "content [([0x61, 0x62], None)] = content [([0x61], None), ([0x62], None)] \<and>
   ContentHash [([0x61, 0x62], None)] =
     Inr ''a1ff8f1856b5e24e32e3882edd4a021f48f28a8b21854b77fdef25a97601aace'' \<and>
   ContentHash [([0x61], None), ([0x62], None)] =
     Inr ''bf5d3affb73efd2ec6c36ad3112dd933efed63c4e1cbffcfa88e2759c144f2d8''"
proof (intro conjI)
  show "content [([0x61, 0x62], None)] = content [([0x61], None), ([0x62], None)]"
    by simp
  show "ContentHash [([0x61, 0x62], None)] =
     Inr ''a1ff8f1856b5e24e32e3882edd4a021f48f28a8b21854b77fdef25a97601aace''"
    by code_simp
  show "ContentHash [([0x61], None), ([0x62], None)] =
     Inr ''bf5d3affb73efd2ec6c36ad3112dd933efed63c4e1cbffcfa88e2759c144f2d8''"
    by code_simp
qed

text \<open>
  C9 at a callback that fails for \<open>m.txt\<close>, a file whose size equals the declared one
  and whose hash differs: the error is dropped, the walk goes on to \<open>x.txt\<close>, the final
  loop emits \<open>c.txt\<close>, and \<open>WalkDiffs\<close> returns no error.
\<close>

theorem callback_error_dropped:
  "fst (failing_cb ''m.txt'' ''m.txt'' DiffResultMismatch [(''a.txt'', DiffResultOnlyExistsLocal)]) =
     Some (Err ''upload failed'') \<and>
   WalkDiffs tree_env ''/home/p'' ''/p'' None (failing_cb ''m.txt'') [] =
     (None, tree_events, tree_calls)"
  by code_simp

text \<open>
  C5 at a remote \<open>m.txt\<close> of the local size and another hash, with a backend whose
  uploads fail: \<open>ProjectRepository.Upload\<close> returns no error although its one upload
  failed, and the diff that follows classifies \<open>m.txt\<close> as \<open>Mismatch\<close> again.
\<close>

theorem push_not_idempotent:
  "ProjectRepository_Upload stale_sys home ''p'' (Dropbox stale_sys) [] =
     (None, [CallUpload \<lparr>ci_Path = ''/p/m.txt'', ci_Mode = ''overwrite''\<rparr> [0x6d]]) \<and>
   uploads_fail (CallUpload \<lparr>ci_Path = ''/p/m.txt'', ci_Mode = ''overwrite''\<rparr> [0x6d]) =
     Some (Err ''upload failed'') \<and>
   emissions (fst (snd (WalkDiffs
     (snapshot stale_sys [CallUpload \<lparr>ci_Path = ''/p/m.txt'', ci_Mode = ''overwrite''\<rparr> [0x6d]])
     ''/home/p'' ''/p'' None log_cb []))) = [(''m.txt'', DiffResultMismatch)]"
  by code_simp

end
